theory Spec2Isabelle
  imports Complex_Main "HOL-Library.Multiset"
begin

section \<open>JavaScript values\<close>

text \<open>
  A value of type \<open>T | null\<close>. \<open>Cache.get\<close> returns \<open>null\<close> both for "no entry" and
  for an entry whose stored data is \<open>null\<close>, so the absent marker and a stored null are
  the same constructor here, as they are the same value in the source.
\<close>

datatype 'a nullable = Null | Val 'a

text \<open>
  A JavaScript \<open>number\<close>: a finite value, \<open>NaN\<close> or an infinity. \<open>le_zero\<close> is the
  comparison \<open>amount <= 0\<close>, which is false for \<open>NaN\<close>; \<open>size_at_least\<close> is the
  comparison \<open>size >= bound\<close> of an integer size with a number.
\<close>

datatype number = Fin rat | NaN | PosInf | NegInf

fun le_zero :: "number \<Rightarrow> bool" where
  "le_zero (Fin r) = (r \<le> 0)"
| "le_zero NaN = False"
| "le_zero PosInf = False"
| "le_zero NegInf = True"

fun size_at_least :: "int \<Rightarrow> number \<Rightarrow> bool" where
  "size_at_least n (Fin r) = (of_int n \<ge> r)"
| "size_at_least n NaN = False"
| "size_at_least n PosInf = False"
| "size_at_least n NegInf = True"

text \<open>
  A JavaScript \<open>Map\<close> iterates in insertion order: overwriting a key keeps its position,
  a new key goes to the end, and \<open>keys().next().value\<close> is the first key. It is modelled
  as an association list in insertion order.
\<close>

fun map_get :: "'k \<Rightarrow> ('k \<times> 'v) list \<Rightarrow> 'v option" where
  "map_get k [] = None"
| "map_get k ((k', v) # m) = (if k' = k then Some v else map_get k m)"

fun map_set :: "'k \<Rightarrow> 'v \<Rightarrow> ('k \<times> 'v) list \<Rightarrow> ('k \<times> 'v) list" where
  "map_set k v [] = [(k, v)]"
| "map_set k v ((k', v') # m) = (if k' = k then (k, v) # m else (k', v') # map_set k v m)"

definition map_delete :: "'k \<Rightarrow> ('k \<times> 'v) list \<Rightarrow> ('k \<times> 'v) list" where
  "map_delete k m = filter (\<lambda>kv. fst kv \<noteq> k) m"

definition map_size :: "('k \<times> 'v) list \<Rightarrow> int" where
  "map_size m = int (length m)"

definition map_keys :: "('k \<times> 'v) list \<Rightarrow> 'k list" where
  "map_keys m = map fst m"


section \<open>The time-bounded cache (utils/cache)\<close>

text \<open>
  Times and durations are integer milliseconds (\<open>Date.now()\<close>). The instant read by
  \<open>Date.now()\<close> is a parameter \<open>now\<close> of each operation. The configured \<open>maxSize\<close> is
  whatever number the caller passed: nothing validates it, so it may be fractional, not
  positive, or not a number at all.
\<close>

record 'a CacheEntry =
  data :: "'a nullable"
  timestamp :: int
  ttl :: int

record CacheConfig =
  defaultTTL :: int
  maxSize :: number
  cleanupInterval :: int

record 'a Cache =
  store :: "(string \<times> 'a CacheEntry) list"
  config :: CacheConfig

text \<open>The constructor: the defaults overridden by the given partial configuration.\<close>

definition default_config :: CacheConfig where
  "default_config = \<lparr>defaultTTL = 5 * 60 * 1000, maxSize = Fin 1000, cleanupInterval = 60 * 1000\<rparr>"

definition new_Cache :: "CacheConfig \<Rightarrow> 'a Cache" where
  "new_Cache cfg = \<lparr>store = [], config = cfg\<rparr>"

text \<open>
  \<open>ttl || this.config.defaultTTL\<close>: an omitted ttl and the falsy ttl \<open>0\<close> both give the
  default.
\<close>

definition ttl_or_default :: "int option \<Rightarrow> CacheConfig \<Rightarrow> int" where
  "ttl_or_default t cfg =
     (case t of None \<Rightarrow> defaultTTL cfg
      | Some d \<Rightarrow> if d = 0 then defaultTTL cfg else d)"

text \<open>
  The eviction step of \<open>set\<close>: when \<open>store.size >= maxSize\<close> the first key in
  insertion order is read; it is deleted only when it is truthy, so neither the
  \<open>undefined\<close> of an empty store nor the empty string \<open>""\<close> is deleted.
\<close>

definition evict_oldest :: "'a Cache \<Rightarrow> (string \<times> 'a CacheEntry) list" where
  "evict_oldest c =
     (if size_at_least (map_size (store c)) (maxSize (config c)) then
        (case map_keys (store c) of
           [] \<Rightarrow> store c
         | oldestKey # _ \<Rightarrow>
             if oldestKey \<noteq> [] then map_delete oldestKey (store c) else store c)
      else store c)"

definition cache_set :: "int \<Rightarrow> string \<Rightarrow> 'a nullable \<Rightarrow> int option \<Rightarrow> 'a Cache \<Rightarrow> 'a Cache" where
  "cache_set now key d t c =
     (let entry = \<lparr>data = d, timestamp = now, ttl = ttl_or_default t (config c)\<rparr>
      in c\<lparr>store := map_set key entry (evict_oldest c)\<rparr>)"

definition expired :: "int \<Rightarrow> 'a CacheEntry \<Rightarrow> bool" where
  "expired now entry \<longleftrightarrow> now - timestamp entry > ttl entry"

definition cache_get :: "int \<Rightarrow> string \<Rightarrow> 'a Cache \<Rightarrow> 'a nullable \<times> 'a Cache" where
  "cache_get now key c =
     (case map_get key (store c) of
        None \<Rightarrow> (Null, c)
      | Some entry \<Rightarrow>
          if expired now entry then (Null, c\<lparr>store := map_delete key (store c)\<rparr>)
          else (data entry, c))"

definition cache_has :: "int \<Rightarrow> string \<Rightarrow> 'a Cache \<Rightarrow> bool \<times> 'a Cache" where
  "cache_has now key c =
     (case map_get key (store c) of
        None \<Rightarrow> (False, c)
      | Some entry \<Rightarrow>
          if expired now entry then (False, c\<lparr>store := map_delete key (store c)\<rparr>)
          else (True, c))"

definition cache_size :: "'a Cache \<Rightarrow> int" where
  "cache_size c = map_size (store c)"

text \<open>
  The background sweep: collect the keys of the expired entries, then delete each.
\<close>

definition cleanup :: "int \<Rightarrow> 'a Cache \<Rightarrow> 'a Cache" where
  "cleanup now c =
     (let expiredKeys = map fst (filter (\<lambda>kv. expired now (snd kv)) (store c))
      in c\<lparr>store := fold map_delete expiredKeys (store c)\<rparr>)"

text \<open>
  \<open>getOrSet\<close>: the supplier is an effectful call, modelled as a transformer of an
  outside world \<open>'w\<close> that either rejects (\<open>Inl\<close>) or resolves (\<open>Inr\<close>). The world after
  the call shows whether the supplier ran. \<open>t_get\<close> is the instant of the lookup and
  \<open>t_set\<close> the instant of the store after the supplier has resolved.
\<close>

definition getOrSet ::
  "int \<Rightarrow> int \<Rightarrow> string \<Rightarrow> ('w \<Rightarrow> ('e + 'a nullable) \<times> 'w) \<Rightarrow> int option
     \<Rightarrow> 'a Cache \<times> 'w \<Rightarrow> ('e + 'a nullable) \<times> 'a Cache \<times> 'w" where
  "getOrSet t_get t_set key fetcher t cw =
     (let (cached, c1) = cache_get t_get key (fst cw) in
      if cached \<noteq> Null then (Inr cached, c1, snd cw)
      else
        (case fetcher (snd cw) of
           (Inl e, w') \<Rightarrow> (Inl e, c1, w')
         | (Inr d, w') \<Rightarrow> (Inr d, cache_set t_set key d t c1, w')))"

section \<open>Payment types (types/index)\<close>

datatype PaymentStatus = PENDING | CONFIRMED | FAILED | CANCELLED

record PaymentRequest =
  amount :: number
  currency :: string
  recipient :: string
  reference :: "string option"
  memo :: "string option"
  expiresAt :: "int option"

record ProcessPaymentOptions =
  agentId :: "string option"
  metadata :: "(string \<times> string) list option"
  retryAttempts :: "int option"

record ListPaymentsOptions =
  userId :: "string option"
  agentId :: "string option"
  status :: "PaymentStatus option"
  limit :: "int option"
  offset :: "int option"

record Payment =
  id' :: string
  agentId :: "string option"
  userId :: string
  amount :: number
  currency :: string
  txSignature :: string
  status :: PaymentStatus
  createdAt :: int
  confirmedAt :: "int option"
  metadata :: "(string \<times> string) list option"

text \<open>
  Every error of the payment code is a \<open>PaymentError\<close> with a message and optional
  details; a \<open>catch\<close> that rethrows puts the caught error into the details.
  \<open>ExternalError\<close> stands for whatever an outside library throws, \<open>CircularError\<close> for
  an outside error object that \<open>JSON.stringify\<close> cannot serialise (a circular structure),
  and \<open>TypeError\<close> for what \<open>JSON.stringify\<close> throws then.
\<close>

datatype error =
    PaymentError string details
  | WalletError string details
  | ExternalError string
  | CircularError string
  | TypeError string
and details = NoDetails | Cause error | Currency string

text \<open>
  Whether \<open>JSON.stringify\<close> accepts an error: it walks the enumerable properties, among
  them the \<open>details\<close> of the SDK's own errors.
\<close>

fun serialisable :: "error \<Rightarrow> bool" and serialisable_details :: "details \<Rightarrow> bool" where
  "serialisable (PaymentError m d) = serialisable_details d"
| "serialisable (WalletError m d) = serialisable_details d"
| "serialisable (ExternalError m) = True"
| "serialisable (CircularError m) = False"
| "serialisable (TypeError m) = True"
| "serialisable_details NoDetails = True"
| "serialisable_details (Cause e) = serialisable e"
| "serialisable_details (Currency c) = True"

section \<open>The logger (utils/logger)\<close>

datatype LogLevel = DEBUG | INFO | WARN | ERROR | NONE

fun level_value :: "LogLevel \<Rightarrow> nat" where
  "level_value DEBUG = 0"
| "level_value INFO = 1"
| "level_value WARN = 2"
| "level_value ERROR = 3"
| "level_value NONE = 4"

definition shouldLog :: "LogLevel \<Rightarrow> LogLevel \<Rightarrow> bool" where
  "shouldLog configured level \<longleftrightarrow> level_value level \<ge> level_value configured"

text \<open>
  \<open>logger.error(message, data)\<close> with the caught error in \<open>data\<close>: when the configured
  level lets the line through, the data is formatted with \<open>JSON.stringify\<close>, which throws
  on an error it cannot serialise. The result is the error that escapes the call, if any.
\<close>

definition logger_error :: "LogLevel \<Rightarrow> error \<Rightarrow> error option" where
  "logger_error configured e =
     (if shouldLog configured ERROR \<and> \<not> serialisable e
      then Some (TypeError ''Converting circular structure to JSON'')
      else None)"

text \<open>
  The \<open>catch\<close> blocks of the payment code: log the caught error, then throw a
  \<open>PaymentError\<close> with the given message and the caught error as details. When the
  logging itself throws, that error escapes instead.
\<close>

definition rethrow :: "LogLevel \<Rightarrow> string \<Rightarrow> error + 'a \<Rightarrow> error + 'a" where
  "rethrow configured msg r =
     (case r of
        Inl e \<Rightarrow>
          (case logger_error configured e of
             Some thrown \<Rightarrow> Inl thrown
           | None \<Rightarrow> Inl (PaymentError msg (Cause e)))
      | Inr v \<Rightarrow> Inr v)"

section \<open>Collaborators (services/WalletService and the RPC connection)\<close>

record TransactionResult =
  signature :: string
  confirmed :: bool

datatype ConfirmationStatus = Processed | Confirmed | Finalized

text \<open>
  The value of a signature-status response: \<open>confirmationStatus\<close> is optional and
  \<open>err\<close> is null or a transaction error, which is truthy unless it is the empty string.
\<close>

record SignatureStatus =
  confirmationStatus :: "ConfirmationStatus option"
  err :: "string nullable"

text \<open>
  What the payment code asks of the wallet service at one moment: whether a wallet is
  connected, the error (if any) that constructing a public key from a string throws, the
  outcome of a native transfer, and the outcome of a signature-status query, whose
  \<open>value\<close> may be null.
\<close>

record WalletService =
  isWalletConnected :: bool
  newPublicKey :: "string \<Rightarrow> error option"
  sendSOL :: "string \<Rightarrow> number \<Rightarrow> string option \<Rightarrow> error + TransactionResult"
  getSignatureStatus :: "string \<Rightarrow> error + SignatureStatus nullable"

definition publicKeyFromString :: "WalletService \<Rightarrow> string \<Rightarrow> error + string" where
  "publicKeyFromString ws publicKey =
     (case newPublicKey ws publicKey of
        Some e \<Rightarrow> Inl (WalletError ''Invalid public key format'' (Cause e))
      | None \<Rightarrow> Inr publicKey)"

section \<open>The payment processor (services/PaymentProcessor)\<close>

text \<open>
  The processor's state: the authoritative \<open>payments\<close> map, the shared cache, the
  timers set by \<open>setTimeout(checkConfirmation, delay)\<close>, each a delay and a payment id,
  and the configured level of the shared logger.
  The cache is shared with other services; only the entries under \<open>payment:<id>\<close> are
  read here, so the data of every other entry is left abstract at the same type.
\<close>

record PaymentProcessor =
  payments :: "(string \<times> Payment) list"
  cache :: "Payment Cache"
  timers :: "(int \<times> string) list"
  logLevel :: LogLevel

definition payment_key :: "string \<Rightarrow> string" where
  "payment_key paymentId = ''payment:'' @ paymentId"

definition validatePaymentRequest :: "int \<Rightarrow> WalletService \<Rightarrow> PaymentRequest \<Rightarrow> error + unit" where
  "validatePaymentRequest now ws paymentRequest =
     (if le_zero (PaymentRequest.amount paymentRequest) then
        Inl (PaymentError ''Payment amount must be greater than 0'' NoDetails)
      else if (case expiresAt paymentRequest of None \<Rightarrow> False | Some e \<Rightarrow> e < now) then
        Inl (PaymentError ''Payment request has expired'' NoDetails)
      else if recipient paymentRequest = [] then
        Inl (PaymentError ''Payment recipient is required'' NoDetails)
      else
        (case publicKeyFromString ws (recipient paymentRequest) of
           Inl e \<Rightarrow> Inl (PaymentError ''Invalid recipient address format'' NoDetails)
         | Inr pk \<Rightarrow> Inr ()))"

definition processSOLPayment :: "LogLevel \<Rightarrow> WalletService \<Rightarrow> PaymentRequest \<Rightarrow> error + string" where
  "processSOLPayment configured ws paymentRequest =
     rethrow configured ''Failed to process SOL payment''
       (case publicKeyFromString ws (recipient paymentRequest) of
          Inl e \<Rightarrow> Inl e
        | Inr recipientPublicKey \<Rightarrow>
            (case sendSOL ws recipientPublicKey (PaymentRequest.amount paymentRequest)
                    (memo paymentRequest) of
               Inl e \<Rightarrow> Inl e
             | Inr result \<Rightarrow>
                 if \<not> confirmed result then
                   Inl (PaymentError ''Transaction failed to confirm'' NoDetails)
                 else Inr (signature result)))"

definition processSPLTokenPayment :: "PaymentRequest \<Rightarrow> error + string" where
  "processSPLTokenPayment paymentRequest =
     Inl (PaymentError ''SPL token payments not yet implemented''
            (Currency (PaymentRequest.currency paymentRequest)))"

text \<open>
  \<open>processPayment\<close>: \<open>t_validate\<close> is the instant of validation, \<open>t_created\<close> the instant
  after the transfer at which the record is created and cached, and \<open>newId\<close> the value
  of \<open>generatePaymentId()\<close>. Every throw happens before the first mutation, so a failed
  call returns the state it was given.
\<close>

definition processPayment ::
  "int \<Rightarrow> int \<Rightarrow> string \<Rightarrow> WalletService \<Rightarrow> PaymentRequest \<Rightarrow> string \<Rightarrow> ProcessPaymentOptions
     \<Rightarrow> PaymentProcessor \<Rightarrow> (error + Payment) \<times> PaymentProcessor" where
  "processPayment t_validate t_created newId ws paymentRequest uid options st =
     (case rethrow (logLevel st) ''Failed to process payment''
             (case validatePaymentRequest t_validate ws paymentRequest of
                Inl e \<Rightarrow> Inl e
              | Inr u \<Rightarrow>
                  if \<not> isWalletConnected ws then
                    Inl (PaymentError ''Wallet not connected'' NoDetails)
                  else if PaymentRequest.currency paymentRequest = ''SOL'' then
                    processSOLPayment (logLevel st) ws paymentRequest
                  else processSPLTokenPayment paymentRequest) of
        Inl e \<Rightarrow> (Inl e, st)
      | Inr sig \<Rightarrow>
          (let payment =
                 \<lparr>id' = newId,
                  agentId = ProcessPaymentOptions.agentId options,
                  userId = uid,
                  amount = PaymentRequest.amount paymentRequest,
                  currency = PaymentRequest.currency paymentRequest,
                  txSignature = sig,
                  status = PENDING,
                  createdAt = t_created,
                  confirmedAt = None,
                  metadata = ProcessPaymentOptions.metadata options\<rparr>
           in (Inr payment,
               st\<lparr>payments := map_set newId payment (payments st),
                  cache := cache_set t_created (payment_key newId) (Val payment)
                             (Some (60 * 60 * 1000)) (cache st),
                  timers := timers st @ [(5000, newId)]\<rparr>)))"

text \<open>\<open>getPayment\<close>: cache first, then the map, repopulating the cache on a miss.\<close>

definition getPayment :: "int \<Rightarrow> string \<Rightarrow> PaymentProcessor \<Rightarrow> Payment option \<times> PaymentProcessor" where
  "getPayment now paymentId st =
     (let (cached, c1) = cache_get now (payment_key paymentId) (cache st) in
      case cached of
        Val p \<Rightarrow> (Some p, st\<lparr>cache := c1\<rparr>)
      | Null \<Rightarrow>
          (case map_get paymentId (payments st) of
             None \<Rightarrow> (None, st\<lparr>cache := c1\<rparr>)
           | Some payment \<Rightarrow>
               (Some payment,
                st\<lparr>cache := cache_set now (payment_key paymentId) (Val payment)
                               (Some (60 * 60 * 1000)) c1\<rparr>)))"

text \<open>The two tests \<open>verifyPayment\<close> makes on the oracle's response.\<close>

definition reports_confirmed :: "SignatureStatus nullable \<Rightarrow> bool" where
  "reports_confirmed r =
     (case r of Null \<Rightarrow> False
      | Val v \<Rightarrow> confirmationStatus v = Some Confirmed \<or> confirmationStatus v = Some Finalized)"

definition reports_error :: "SignatureStatus nullable \<Rightarrow> bool" where
  "reports_error r =
     (case r of Null \<Rightarrow> False
      | Val v \<Rightarrow> (case err v of Null \<Rightarrow> False | Val e \<Rightarrow> e \<noteq> []))"

text \<open>
  \<open>verifyPayment\<close>: \<open>t_lookup\<close> is the instant of the lookup, \<open>t_update\<close> the instant
  after the oracle has answered, used for \<open>confirmedAt\<close> and for the cache entry. The
  current status of the payment is not looked at. The \<open>catch\<close> logs the caught error
  before it rethrows; the log calls on the other paths are given strings and the
  oracle's parsed response, which serialise.
\<close>

definition verifyPayment ::
  "int \<Rightarrow> int \<Rightarrow> WalletService \<Rightarrow> string \<Rightarrow> PaymentProcessor
     \<Rightarrow> (error + Payment) \<times> PaymentProcessor" where
  "verifyPayment t_lookup t_update ws paymentId st =
     (let (found, st1) = getPayment t_lookup paymentId st in
      case found of
        None \<Rightarrow>
          (rethrow (logLevel st1) ''Failed to verify payment''
             (Inl (PaymentError ''Payment not found'' NoDetails)), st1)
      | Some payment \<Rightarrow>
          (case getSignatureStatus ws (txSignature payment) of
             Inl e \<Rightarrow> (rethrow (logLevel st1) ''Failed to verify payment'' (Inl e), st1)
           | Inr status_response \<Rightarrow>
               if reports_confirmed status_response then
                 (let updatedPayment = payment\<lparr>status := CONFIRMED, confirmedAt := Some t_update\<rparr>
                  in (Inr updatedPayment,
                      st1\<lparr>payments := map_set paymentId updatedPayment (payments st1),
                          cache := cache_set t_update (payment_key paymentId) (Val updatedPayment)
                                     (Some (60 * 60 * 1000)) (cache st1)\<rparr>))
               else if reports_error status_response then
                 (let updatedPayment = payment\<lparr>status := FAILED\<rparr>
                  in (Inr updatedPayment,
                      st1\<lparr>payments := map_set paymentId updatedPayment (payments st1),
                          cache := cache_set t_update (payment_key paymentId) (Val updatedPayment)
                                     (Some (60 * 60 * 1000)) (cache st1)\<rparr>))
               else (Inr payment, st1)))"



text \<open>
  The confirmation poller. \<open>world k\<close> gives the instants and the wallet service seen by
  the check made when the attempt counter is \<open>k\<close>. The result is what escapes
  \<open>checkConfirmation\<close> as a thrown error, the trace of what happened (a timer delay, a
  call of \<open>verifyPayment\<close> with its outcome, a call of \<open>logger.error\<close> with the caught
  error, the logged timeout), and the state. The body runs inside \<open>try\<close>; the \<open>catch\<close>
  calls \<open>logger.error\<close> and neither increments \<open>attempts\<close> nor sets a timer; what
  escapes is what that call throws, if anything.
\<close>

datatype MonitorEvent =
    Delay int
  | Verified "error + Payment"
  | ErrorLogged error
  | TimeoutLogged

definition maxAttempts :: nat where
  "maxAttempts = 30"

function checkConfirmation ::
  "(nat \<Rightarrow> int \<times> int \<times> WalletService) \<Rightarrow> string \<Rightarrow> nat \<Rightarrow> PaymentProcessor
     \<Rightarrow> error option \<times> MonitorEvent list \<times> PaymentProcessor" where
  "checkConfirmation world paymentId attempts st =
     (case verifyPayment (fst (world attempts)) (fst (snd (world attempts)))
             (snd (snd (world attempts))) paymentId st of
        (Inl e, st1) \<Rightarrow>
          (logger_error (logLevel st1) e, [Verified (Inl e), ErrorLogged e], st1)
      | (Inr payment, st1) \<Rightarrow>
          if status payment = CONFIRMED \<or> status payment = FAILED then
            (None, [Verified (Inr payment)], st1)
          else if attempts + 1 < maxAttempts then
            (case checkConfirmation world paymentId (attempts + 1) st1 of
               (thrown, events, st2) \<Rightarrow>
                 (thrown, Verified (Inr payment) # Delay 10000 # events, st2))
          else (None, [Verified (Inr payment), TimeoutLogged], st1))"
  by pat_completeness auto
termination
  by (relation "measure (\<lambda>(world, paymentId, attempts, st). maxAttempts - attempts)") auto

declare checkConfirmation.simps [simp del]

definition monitorPaymentConfirmation ::
  "(nat \<Rightarrow> int \<times> int \<times> WalletService) \<Rightarrow> string \<Rightarrow> PaymentProcessor
     \<Rightarrow> error option \<times> MonitorEvent list \<times> PaymentProcessor" where
  "monitorPaymentConfirmation world paymentId st =
     (case checkConfirmation world paymentId 0 st of
        (thrown, events, st') \<Rightarrow> (thrown, Delay 5000 # events, st'))"

definition checks :: "MonitorEvent list \<Rightarrow> nat" where
  "checks events = length (filter (\<lambda>ev. case ev of Verified r \<Rightarrow> True | _ \<Rightarrow> False) events)"

text \<open>
  Every check in a trace succeeded and found the payment neither CONFIRMED nor FAILED.
\<close>

definition all_checks_pending :: "MonitorEvent list \<Rightarrow> bool" where
  "all_checks_pending events =
     list_all (\<lambda>ev. case ev of
                      Verified (Inr p) \<Rightarrow> status p \<noteq> CONFIRMED \<and> status p \<noteq> FAILED
                    | Verified (Inl e) \<Rightarrow> False
                    | _ \<Rightarrow> True) events"

section \<open>The specification's reading of the operations\<close>



text \<open>
  The filter with an empty-string \<open>userId\<close> or \<open>agentId\<close> read as not supplied.
\<close>

definition effective :: "ListPaymentsOptions \<Rightarrow> ListPaymentsOptions" where
  "effective options =
     options\<lparr>ListPaymentsOptions.userId :=
                (if ListPaymentsOptions.userId options = Some [] then None
                 else ListPaymentsOptions.userId options),
              ListPaymentsOptions.agentId :=
                (if ListPaymentsOptions.agentId options = Some [] then None
                 else ListPaymentsOptions.agentId options)\<rparr>"


text \<open>The terminal states of a payment.\<close>

definition terminal :: "PaymentStatus \<Rightarrow> bool" where
  "terminal s \<longleftrightarrow> s = CONFIRMED \<or> s = FAILED \<or> s = CANCELLED"

text \<open>
  The error kinds of the specification are told apart by the message of the error that
  \<open>processPayment\<close> wraps.
\<close>

definition InvalidPayment_amount :: error where
  "InvalidPayment_amount =
     PaymentError ''Failed to process payment''
       (Cause (PaymentError ''Payment amount must be greater than 0'' NoDetails))"

definition NotImplemented :: "string \<Rightarrow> error" where
  "NotImplemented cur =
     PaymentError ''Failed to process payment''
       (Cause (PaymentError ''SPL token payments not yet implemented'' (Currency cur)))"

definition the_limit :: "ListPaymentsOptions \<Rightarrow> int" where
  "the_limit options = (case limit options of None \<Rightarrow> 50 | Some l \<Rightarrow> l)"

definition the_offset :: "ListPaymentsOptions \<Rightarrow> int" where
  "the_offset options = (case offset options of None \<Rightarrow> 0 | Some k \<Rightarrow> k)"

text \<open>An amount that is zero or negative (\<open>-Infinity\<close> included, \<open>NaN\<close> not).\<close>

definition zero_or_negative :: "number \<Rightarrow> bool" where
  "zero_or_negative a \<longleftrightarrow> (case a of Fin r \<Rightarrow> r = 0 \<or> r < 0 | NegInf \<Rightarrow> True | _ \<Rightarrow> False)"

definition WalletNotConnected :: error where
  "WalletNotConnected =
     PaymentError ''Failed to process payment''
       (Cause (PaymentError ''Wallet not connected'' NoDetails))"

text \<open>A sequence of \<open>set\<close> calls, each an instant, a key, the data and the optional ttl.\<close>

definition set_all :: "(int \<times> string \<times> 'a nullable \<times> int option) list \<Rightarrow> 'a Cache \<Rightarrow> 'a Cache" where
  "set_all ops c = fold (\<lambda>(now, key, d, t). cache_set now key d t) ops c"

text \<open>The number of stored entries does not exceed a bound: \<open>size <= bound\<close>.\<close>

fun within_maxSize :: "int \<Rightarrow> number \<Rightarrow> bool" where
  "within_maxSize n (Fin r) = (of_int n \<le> r)"
| "within_maxSize n NaN = False"
| "within_maxSize n PosInf = True"
| "within_maxSize n NegInf = False"

text \<open>
  The invariant behind the capacity bound for the integer bound \<open>n\<close>: the keys are
  distinct (the store is a map), none is the empty string, \<open>maxSize\<close> is \<open>n\<close> and the
  size is at most \<open>n\<close>.
\<close>

definition within_capacity :: "int \<Rightarrow> 'a Cache \<Rightarrow> bool" where
  "within_capacity n c \<longleftrightarrow>
     distinct (map_keys (store c)) \<and> [] \<notin> set (map_keys (store c)) \<and>
     maxSize (config c) = Fin (of_int n) \<and> cache_size c \<le> n"

text \<open>
  A sequence of \<open>getOrSet\<close> calls for one key and one supplier, each with the instant of
  its lookup and of its store; the results are collected in order.
\<close>

fun getOrSet_all ::
  "string \<Rightarrow> ('w \<Rightarrow> ('e + 'a nullable) \<times> 'w) \<Rightarrow> int option \<Rightarrow> (int \<times> int) list
     \<Rightarrow> 'a Cache \<times> 'w \<Rightarrow> ('e + 'a nullable) list \<times> 'a Cache \<times> 'w" where
  "getOrSet_all key fetcher t [] cw = ([], cw)"
| "getOrSet_all key fetcher t ((t_get, t_set) # calls) cw =
     (case getOrSet t_get t_set key fetcher t cw of
        (r, cw') \<Rightarrow>
          (case getOrSet_all key fetcher t calls cw' of
             (rs, cw'') \<Rightarrow> (r # rs, cw'')))"

section \<open>Example inputs\<close>

text \<open>A supplier that resolves to null and counts its invocations in the world.\<close>

definition counting_null_supplier :: "nat \<Rightarrow> (unit + nat nullable) \<times> nat" where
  "counting_null_supplier n = (Inr Null, Suc n)"

definition short_lived :: "nat Cache" where
  "short_lived =
     \<lparr>store = [(''k'', \<lparr>data = Val 7, timestamp = 0, ttl = 100\<rparr>)], config = default_config\<rparr>"

definition three_sets :: "(int \<times> string \<times> nat nullable \<times> int option) list" where
  "three_sets = [(0, ''a'', Val 1, None), (1, ''b'', Val 2, None), (2, ''c'', Val 3, None)]"

definition full_cache :: "nat Cache" where
  "full_cache =
     \<lparr>store = [(''a'', \<lparr>data = Val 1, timestamp = 0, ttl = 1000\<rparr>),
               (''b'', \<lparr>data = Val 2, timestamp = 1, ttl = 1000\<rparr>)],
      config = default_config\<lparr>maxSize := Fin 2\<rparr>\<rparr>"

definition full_cache_empty_key :: "nat Cache" where
  "full_cache_empty_key =
     \<lparr>store = [('''', \<lparr>data = Val 1, timestamp = 0, ttl = 1000\<rparr>),
               (''a'', \<lparr>data = Val 2, timestamp = 1, ttl = 1000\<rparr>)],
      config = default_config\<lparr>maxSize := Fin 2\<rparr>\<rparr>"

definition alice_payment :: Payment where
  "alice_payment =
     \<lparr>id' = ''p1'', agentId = None, userId = ''alice'', amount = Fin 1, currency = ''SOL'',
      txSignature = ''sig1'', status = PENDING, createdAt = 1000, confirmedAt = None,
      metadata = None\<rparr>"


definition confirmed_payment :: Payment where
  "confirmed_payment = alice_payment\<lparr>status := CONFIRMED, confirmedAt := Some 100\<rparr>"


definition holding :: "Payment \<Rightarrow> PaymentProcessor" where
  "holding p =
     \<lparr>payments = [(id' p, p)], cache = new_Cache default_config, timers = [], logLevel = INFO\<rparr>"




definition wallet_answering :: "error + SignatureStatus nullable \<Rightarrow> WalletService" where
  "wallet_answering answer =
     \<lparr>isWalletConnected = True,
      newPublicKey = (\<lambda>s. None),
      sendSOL = (\<lambda>r a m. Inr \<lparr>signature = ''sig1'', confirmed = True\<rparr>),
      getSignatureStatus = (\<lambda>sig. answer)\<rparr>"

definition finalized :: "SignatureStatus nullable" where
  "finalized = Val \<lparr>confirmationStatus = Some Finalized, err = Null\<rparr>"

definition still_processed :: "SignatureStatus nullable" where
  "still_processed = Val \<lparr>confirmationStatus = Some Processed, err = Null\<rparr>"

definition transaction_error :: "SignatureStatus nullable" where
  "transaction_error = Val \<lparr>confirmationStatus = None, err = Val ''InstructionError''\<rparr>"

definition usdc_request :: PaymentRequest where
  "usdc_request =
     \<lparr>PaymentRequest.amount = Fin 1, PaymentRequest.currency = ''USDC'', recipient = ''R1'',
      reference = None, memo = None, expiresAt = None\<rparr>"

definition no_options :: ProcessPaymentOptions where
  "no_options =
     \<lparr>ProcessPaymentOptions.agentId = None, ProcessPaymentOptions.metadata = None,
      retryAttempts = None\<rparr>"



text \<open>
  A world in which the status oracle cannot be reached at any check; check \<open>k\<close> happens
  5 seconds plus \<open>k\<close> times 10 seconds after the payment was submitted.
\<close>

definition oracle_unreachable :: "nat \<Rightarrow> int \<times> int \<times> WalletService" where
  "oracle_unreachable k =
     (5000 + 10000 * int k, 5001 + 10000 * int k,
      wallet_answering (Inl (ExternalError ''fetch failed'')))"

text \<open>
  A world in which the oracle answers every check with "processed" and no error.
\<close>

definition oracle_processing :: "nat \<Rightarrow> int \<times> int \<times> WalletService" where
  "oracle_processing k =
     (5000 + 10000 * int k, 5001 + 10000 * int k, wallet_answering (Inr still_processed))"

text \<open>
  The state of the poller after its first check of the pending payment in that world:
  the lookup has put the payment into the cache.
\<close>

definition polled_once :: PaymentProcessor where
  "polled_once =
     (holding alice_payment)
       \<lparr>cache := \<lparr>store = [(''payment:p1'',
                                 \<lparr>data = Val alice_payment, timestamp = 5000,
                                    ttl = 60 * 60 * 1000\<rparr>)],
                      config = default_config\<rparr>\<rparr>"

lemmas example_defs =
  alice_payment_def confirmed_payment_def holding_def wallet_answering_def
  finalized_def still_processed_def transaction_error_def usdc_request_def no_options_def
  new_Cache_def default_config_def

lemmas processor_defs =
  verifyPayment_def getPayment_def cache_get_def cache_set_def evict_oldest_def payment_key_def
  map_size_def map_keys_def map_delete_def ttl_or_default_def expired_def reports_confirmed_def
  reports_error_def rethrow_def logger_error_def shouldLog_def Let_def

section \<open>Facts about insertion-ordered maps\<close>

lemma map_get_map_delete_same [simp]: "map_get k (map_delete k m) = None"
  by (induction m) (auto simp: map_delete_def)

lemma map_get_map_delete_other [simp]: "k' \<noteq> k \<Longrightarrow> map_get k' (map_delete k m) = map_get k' m"
  by (induction m) (auto simp: map_delete_def)

lemma map_get_map_set_same [simp]: "map_get k (map_set k v m) = Some v"
  by (induction m) auto

lemma map_get_map_set_other [simp]: "k' \<noteq> k \<Longrightarrow> map_get k' (map_set k v m) = map_get k' m"
  by (induction m) auto

lemma map_get_fold_delete:
  "map_get k (fold map_delete ks m) = (if k \<in> set ks then None else map_get k m)"
proof (induction ks arbitrary: m)
  case Nil
  then show ?case by simp
next
  case (Cons a ks)
  then show ?case by (cases "a = k") simp_all
qed

lemma map_get_Some_mem: "map_get k m = Some v \<Longrightarrow> (k, v) \<in> set m"
  by (induction m) (auto split: if_splits)

lemma map_get_None_iff: "map_get k m = None \<longleftrightarrow> k \<notin> fst ` set m"
  by (induction m) (auto split: if_splits)

lemma map_get_distinct:
  "distinct (map fst m) \<Longrightarrow> (k, v) \<in> set m \<Longrightarrow> map_get k m = Some v"
  by (induction m) (auto simp: rev_image_eqI)

lemma keys_map_set: "fst ` set (map_set k v m) = insert k (fst ` set m)"
  by (induction k v m rule: map_set.induct) auto

lemma distinct_map_set: "distinct (map fst m) \<Longrightarrow> distinct (map fst (map_set k v m))"
  by (induction m) (auto simp: keys_map_set)

lemma length_map_set:
  "length (map_set k v m) = (if k \<in> fst ` set m then length m else Suc (length m))"
  by (induction m) (auto simp: rev_image_eqI)

lemma map_set_new: "k \<notin> fst ` set m \<Longrightarrow> map_set k v m = m @ [(k, v)]"
  by (induction m) auto

lemma map_delete_head: "k \<notin> fst ` set m \<Longrightarrow> map_delete k ((k, v) # m) = m"
  by (induction m) (auto simp: map_delete_def)

section \<open>Lazy expiry of cache entries\<close>

lemma cleanup_get:
  assumes d: "distinct (map_keys (store c))" and le: "t \<le> now"
  shows "fst (cache_get now key (cleanup t c)) = fst (cache_get now key c)"
proof (cases "map_get key (store c)")
  case None
  then show ?thesis
    by (simp add: cache_get_def cleanup_def map_get_fold_delete)
next
  case (Some e)
  show ?thesis
  proof (cases "expired t e")
    case True
    then have "expired now e" using le by (simp add: expired_def)
    moreover have "key \<in> fst ` {kv \<in> set (store c). expired t (snd kv)}"
      using map_get_Some_mem[OF Some] True by force
    ultimately show ?thesis using Some
      by (simp add: cache_get_def cleanup_def map_get_fold_delete)
  next
    case False
    have "key \<notin> fst ` {kv \<in> set (store c). expired t (snd kv)}"
    proof
      assume "key \<in> fst ` {kv \<in> set (store c). expired t (snd kv)}"
      then obtain e' where m: "(key, e') \<in> set (store c)" and x: "expired t e'" by auto
      from map_get_distinct[OF _ m] d have "map_get key (store c) = Some e'"
        by (simp add: map_keys_def)
      with Some x False show False by simp
    qed
    then show ?thesis using Some
      by (simp add: cache_get_def cleanup_def map_get_fold_delete)
  qed
qed

text \<open>
  Claim C4. For an entry stored under \<open>key\<close>, \<open>get(key)\<close> at instant \<open>now\<close> returns the
  absent marker and deletes the entry when the time elapsed since the entry was stored
  exceeds the entry's own TTL, and returns the stored data, leaving the cache as it is,
  when it does not. The answer does not depend on the sweep: on a store with distinct
  keys, a sweep that ran at an instant \<open>t\<close> not later than \<open>now\<close> does not change what
  \<open>get\<close> returns.
\<close>

theorem cache_get_lazy_expiry:
  "(map_get key (store c) = Some entry \<longrightarrow>
      (now - timestamp entry > ttl entry \<longrightarrow>
         fst (cache_get now key c) = Null \<and>
         map_get key (store (snd (cache_get now key c))) = None) \<and>
      (\<not> now - timestamp entry > ttl entry \<longrightarrow>
         cache_get now key c = (data entry, c))) \<and>
   (distinct (map_keys (store c)) \<and> t \<le> now \<longrightarrow>
      fst (cache_get now key (cleanup t c)) = fst (cache_get now key c))"
  using cleanup_get[of c t now key] by (simp add: cache_get_def expired_def)

text \<open>
  Witness for claim C4: an entry with a TTL of 100 ms stored at instant 0 is absent at
  instant 150 and present at instant 50, with or without a sweep at instant 120.
\<close>

theorem cache_get_lazy_expiry_witness:
  "map_get ''k'' (store short_lived) = Some \<lparr>data = Val 7, timestamp = 0, ttl = 100\<rparr> \<and>
   fst (cache_get 150 ''k'' short_lived) = Null \<and>
   map_get ''k'' (store (snd (cache_get 150 ''k'' short_lived))) = None \<and>
   cache_get 50 ''k'' short_lived = (Val 7, short_lived) \<and>
   distinct (map_keys (store short_lived)) \<and>
   fst (cache_get 150 ''k'' (cleanup 120 short_lived)) = fst (cache_get 150 ''k'' short_lived)"
  using cache_get_lazy_expiry[of "''k''" short_lived "\<lparr>data = Val 7, timestamp = 0, ttl = 100\<rparr>" 150 120]
    cache_get_lazy_expiry[of "''k''" short_lived "\<lparr>data = Val 7, timestamp = 0, ttl = 100\<rparr>" 50 0]
  by (simp add: short_lived_def map_keys_def)

section \<open>Capacity of the cache\<close>

lemma evict_oldest_full:
  assumes "store c = (k0, e0) # rest" "k0 \<noteq> []" "distinct (map_keys (store c))"
    and "size_at_least (map_size (store c)) (maxSize (config c))"
  shows "evict_oldest c = rest"
  using assms by (simp add: evict_oldest_def map_keys_def map_delete_head)

lemma evict_oldest_not_full:
  "\<not> size_at_least (map_size (store c)) (maxSize (config c)) \<Longrightarrow> evict_oldest c = store c"
  by (simp add: evict_oldest_def)

lemma config_cache_set [simp]: "config (cache_set now key d t c) = config c"
  by (simp add: cache_set_def)

lemma cache_set_within_capacity:
  assumes inv: "within_capacity n c" and k: "key \<noteq> []" and m: "1 \<le> n"
  shows "within_capacity n (cache_set now key d t c)"
proof (cases "n \<le> map_size (store c)")
  case True
  from inv have ms: "maxSize (config c) = Fin (of_int n)" by (simp add: within_capacity_def)
  from True m have "store c \<noteq> []" by (auto simp: map_size_def)
  then obtain k0 e0 rest where s: "store c = (k0, e0) # rest" by (cases "store c") auto
  from inv s have k0: "k0 \<noteq> []" and d: "distinct (map_keys (store c))"
    by (auto simp: within_capacity_def map_keys_def)
  have full: "size_at_least (map_size (store c)) (maxSize (config c))"
    using True by (simp add: ms)
  have ev: "evict_oldest c = rest" by (rule evict_oldest_full[OF s k0 d full])
  from inv s have len: "int (length rest) + 1 \<le> n"
    by (simp add: within_capacity_def cache_size_def map_size_def)
  from inv s have "distinct (map fst rest)" "[] \<notin> set (map fst rest)"
    by (auto simp: within_capacity_def map_keys_def)
  then show ?thesis using len k ms
    by (simp add: within_capacity_def cache_set_def ev map_keys_def cache_size_def map_size_def
        distinct_map_set keys_map_set length_map_set)
next
  case False
  from inv have ms: "maxSize (config c) = Fin (of_int n)" by (simp add: within_capacity_def)
  have "\<not> size_at_least (map_size (store c)) (maxSize (config c))"
    using False by (simp add: ms)
  then have ev: "evict_oldest c = store c" by (rule evict_oldest_not_full)
  from inv have "distinct (map fst (store c))" "[] \<notin> set (map fst (store c))"
    by (auto simp: within_capacity_def map_keys_def)
  then show ?thesis using False k ms
    by (simp add: within_capacity_def cache_set_def ev map_keys_def cache_size_def map_size_def
        distinct_map_set keys_map_set length_map_set)
qed

lemma set_all_within_capacity:
  assumes "within_capacity n c" "1 \<le> n"
    and "\<forall>op \<in> set ops. fst (snd op) \<noteq> []"
  shows "within_capacity n (set_all ops c)"
  using assms
proof (induction ops arbitrary: c)
  case Nil
  then show ?case by (simp add: set_all_def)
next
  case (Cons op ops)
  obtain now key d t where op: "op = (now, key, d, t)" by (cases op) auto
  with Cons.prems have k: "key \<noteq> []" by simp
  have w: "within_capacity n (cache_set now key d t c)"
    by (rule cache_set_within_capacity[OF Cons.prems(1) k Cons.prems(2)])
  have "within_capacity n (set_all ops (cache_set now key d t c))"
    using Cons.prems by (intro Cons.IH[OF w]) simp_all
  then show ?case by (simp add: set_all_def op)
qed

lemma new_Cache_within_capacity:
  "maxSize cfg = Fin (of_int n) \<Longrightarrow> 0 \<le> n \<Longrightarrow> within_capacity n (new_Cache cfg)"
  by (simp add: within_capacity_def new_Cache_def map_keys_def cache_size_def map_size_def)

text \<open>
  Counterexample for claim C5, as stated. With \<open>maxSize = 0\<close> the first \<open>set\<close> leaves one
  entry in the store, which exceeds \<open>maxSize\<close>: \<open>set\<close> always inserts. With
  \<open>maxSize = 1.5\<close> two \<open>set\<close> calls leave two entries: neither size 0 nor size 1 reaches
  1.5, so nothing is evicted. With \<open>maxSize = 1\<close>, storing under the empty string and
  then under \<open>"a"\<close> leaves two entries: the oldest key \<open>""\<close> is falsy and is not evicted.
\<close>

theorem cache_capacity_counterexample:
  "\<not> within_maxSize
        (cache_size (cache_set 0 ''a'' (Val (1::nat)) None (new_Cache (default_config\<lparr>maxSize := Fin 0\<rparr>))))
        (maxSize (default_config\<lparr>maxSize := Fin 0\<rparr>)) \<and>
   \<not> within_maxSize
        (cache_size (set_all [(0, ''a'', Val (1::nat), None), (1, ''b'', Val 2, None)]
                       (new_Cache (default_config\<lparr>maxSize := Fin (3/2)\<rparr>))))
        (maxSize (default_config\<lparr>maxSize := Fin (3/2)\<rparr>)) \<and>
   \<not> within_maxSize
        (cache_size (set_all [(0, '''', Val (1::nat), None), (1, ''a'', Val 2, None)]
                       (new_Cache (default_config\<lparr>maxSize := Fin 1\<rparr>))))
        (maxSize (default_config\<lparr>maxSize := Fin 1\<rparr>))"
  by (simp add: set_all_def cache_set_def evict_oldest_def new_Cache_def default_config_def
      cache_size_def map_size_def map_keys_def map_delete_def ttl_or_default_def)

text \<open>
  Claim C5, amended. For a cache created with a \<open>maxSize\<close> that is a positive integer,
  after every sequence of \<open>set\<close> calls on non-empty keys the number of stored entries
  does not exceed \<open>maxSize\<close>. When the store holds exactly \<open>maxSize\<close> entries and its
  oldest key is not the empty string, \<open>set\<close> with a new key removes exactly the oldest
  entry by insertion order and appends the new one.
\<close>

theorem cache_capacity:
  "(maxSize cfg = Fin (of_int n) \<and> 1 \<le> n \<and> (\<forall>op \<in> set ops. fst (snd op) \<noteq> []) \<longrightarrow>
      within_maxSize (cache_size (set_all ops (new_Cache cfg :: 'a Cache))) (maxSize cfg) \<and>
      cache_size (set_all ops (new_Cache cfg :: 'a Cache)) \<le> n) \<and>
   (store c = (k0, e0) # rest \<and> k0 \<noteq> [] \<and> distinct (map_keys (store c)) \<and>
    maxSize (config c) = Fin (of_int (cache_size c)) \<and> key \<notin> set (map_keys (store c)) \<longrightarrow>
      store (cache_set now key d t c) =
        rest @ [(key, \<lparr>data = d, timestamp = now, ttl = ttl_or_default t (config c)\<rparr>)])"
proof (intro conjI impI)
  assume a: "maxSize cfg = Fin (of_int n) \<and> 1 \<le> n \<and> (\<forall>op \<in> set ops. fst (snd op) \<noteq> [])"
  have "within_capacity n (new_Cache cfg :: 'a Cache)"
    using a by (simp add: new_Cache_within_capacity)
  then have "within_capacity n (set_all ops (new_Cache cfg :: 'a Cache))"
    using set_all_within_capacity[of n "new_Cache cfg :: 'a Cache" ops] a by simp
  then show le: "cache_size (set_all ops (new_Cache cfg :: 'a Cache)) \<le> n"
    by (simp add: within_capacity_def)
  then show "within_maxSize (cache_size (set_all ops (new_Cache cfg :: 'a Cache))) (maxSize cfg)"
    using a by simp
next
  assume a: "store c = (k0, e0) # rest \<and> k0 \<noteq> [] \<and> distinct (map_keys (store c)) \<and>
    maxSize (config c) = Fin (of_int (cache_size c)) \<and> key \<notin> set (map_keys (store c))"
  then have s: "store c = (k0, e0) # rest" and k0: "k0 \<noteq> []"
    and d: "distinct (map_keys (store c))"
    and f: "size_at_least (map_size (store c)) (maxSize (config c))"
    by (auto simp: cache_size_def)
  have "evict_oldest c = rest" by (rule evict_oldest_full[OF s k0 d f])
  moreover from a have "key \<notin> fst ` set rest" by (auto simp: map_keys_def)
  ultimately show "store (cache_set now key d t c) =
        rest @ [(key, \<lparr>data = d, timestamp = now, ttl = ttl_or_default t (config c)\<rparr>)]"
    by (simp add: cache_set_def map_set_new)
qed

text \<open>
  Witness for claim C5, amended: three \<open>set\<close> calls on a cache of capacity 2 leave at most
  two entries, and storing \<open>"c"\<close> into the full store holding \<open>"a"\<close> and \<open>"b"\<close> leaves
  \<open>"b"\<close> and \<open>"c"\<close>.
\<close>

theorem cache_capacity_witness:
  "maxSize (default_config\<lparr>maxSize := Fin 2\<rparr>) = Fin (of_int 2) \<and>
   [] \<notin> set (map (\<lambda>op. fst (snd op)) three_sets) \<and>
   cache_size (set_all three_sets (new_Cache (default_config\<lparr>maxSize := Fin 2\<rparr>))) \<le> 2 \<and>
   within_maxSize (cache_size (set_all three_sets (new_Cache (default_config\<lparr>maxSize := Fin 2\<rparr>))))
     (Fin 2) \<and>
   maxSize (config full_cache) = Fin (of_int (cache_size full_cache)) \<and>
   distinct (map_keys (store full_cache)) \<and>
   ''c'' \<notin> set (map_keys (store full_cache)) \<and>
   map_keys (store (cache_set 2 ''c'' (Val 3) None full_cache)) = [''b'', ''c'']"
  using cache_capacity[of "default_config\<lparr>maxSize := Fin 2\<rparr>" 2 three_sets
      full_cache "''a''" "\<lparr>data = Val 1, timestamp = 0, ttl = 1000\<rparr>"
      "[(''b'', \<lparr>data = Val 2, timestamp = 1, ttl = 1000\<rparr>)]" "''c''" 2 "Val 3" None]
  by (simp add: three_sets_def full_cache_def default_config_def cache_size_def map_size_def
      map_keys_def)

section \<open>Overwriting a key at capacity\<close>

text \<open>
  When the store is full and its oldest key is a non-empty string other than the key
  being overwritten, \<open>set\<close> on a key already present deletes the oldest entry, so the
  number of stored keys goes down by one.
\<close>

lemma overwrite_at_capacity_evicts:
  assumes "store c = (k0, e0) # rest" "k0 \<noteq> []" "distinct (map_keys (store c))"
    and "size_at_least (map_size (store c)) (maxSize (config c))"
    and "key \<noteq> k0" "key \<in> set (map_keys (store c))"
  shows "map_get k0 (store (cache_set now key d t c)) = None \<and>
         cache_size (cache_set now key d t c) = cache_size c - 1"
proof -
  have ev: "evict_oldest c = rest" by (rule evict_oldest_full[OF assms(1-4)])
  from assms have "key \<in> fst ` set rest" "k0 \<notin> fst ` set rest"
    by (auto simp: map_keys_def)
  then show ?thesis using assms(1,5)
    by (simp add: cache_set_def ev cache_size_def map_size_def length_map_set map_get_None_iff
        keys_map_set)
qed

text \<open>
  Claim C9, at the input where the code departs from it. The store is full (two entries,
  \<open>maxSize = 2\<close>), its oldest key is the empty string, and \<open>"a"\<close> is overwritten: the
  oldest entry is not evicted and the number of stored keys stays 2, where the claim has
  the oldest entry evicted and the number of keys going down by one.
\<close>

theorem overwrite_at_capacity_keeps_empty_key:
  "size_at_least (cache_size full_cache_empty_key) (maxSize (config full_cache_empty_key)) \<and>
   map_keys (store (cache_set 5 ''a'' (Val 9) None full_cache_empty_key)) = ['''', ''a''] \<and>
   cache_size (cache_set 5 ''a'' (Val 9) None full_cache_empty_key) =
     cache_size full_cache_empty_key"
  by (simp add: full_cache_empty_key_def cache_set_def evict_oldest_def default_config_def
      cache_size_def map_size_def map_keys_def map_delete_def ttl_or_default_def)

section \<open>A supplier that resolves to null\<close>

lemma getOrSet_null_step:
  assumes "fst (fetcher w) = Inr Null" and "fst (cache_get t_get key c) = Null"
  shows "getOrSet t_get t_set key fetcher t (c, w) =
           (Inr Null, cache_set t_set key Null t (snd (cache_get t_get key c)), snd (fetcher w))"
  using assms by (cases "fetcher w"; cases "cache_get t_get key c") (simp add: getOrSet_def)

lemma cache_get_stored_null:
  "fst (cache_get now key (cache_set t_set key Null t c)) = Null"
  by (simp add: cache_get_def cache_set_def)

lemma getOrSet_all_Cons:
  "getOrSet t_get t_set key fetcher t cw = (r, cw') \<Longrightarrow>
   getOrSet_all key fetcher t ((t_get, t_set) # calls) cw =
     (r # fst (getOrSet_all key fetcher t calls cw'), snd (getOrSet_all key fetcher t calls cw'))"
  by (simp split: prod.splits)

lemma funpow_after:
  "((\<lambda>w. snd (fetcher w)) ^^ n) (snd (fetcher w)) =
     snd (fetcher (((\<lambda>w. snd (fetcher w)) ^^ n) w))"
  using funpow_swap1[of "\<lambda>w. snd (fetcher w)" n w] by simp

lemma getOrSet_all_null:
  assumes "\<forall>w. fst (fetcher w) = Inr Null" and "fst (cache_get t_get key c) = Null"
  shows "fst (getOrSet_all key fetcher t ((t_get, t_set) # calls) (c, w)) =
           replicate (Suc (length calls)) (Inr Null) \<and>
         snd (snd (getOrSet_all key fetcher t ((t_get, t_set) # calls) (c, w))) =
           ((\<lambda>w. snd (fetcher w)) ^^ Suc (length calls)) w"
  using assms(2)
proof (induction calls arbitrary: t_get t_set c w)
  case Nil
  then show ?case using assms(1) by (simp add: getOrSet_null_step)
next
  case (Cons call calls)
  obtain g s where call: "call = (g, s)" by (cases call)
  let ?c' = "cache_set t_set key Null t (snd (cache_get t_get key c))"
  have step: "getOrSet t_get t_set key fetcher t (c, w) = (Inr Null, ?c', snd (fetcher w))"
    using assms(1) Cons.prems by (simp add: getOrSet_null_step)
  have "fst (cache_get g key ?c') = Null" by (rule cache_get_stored_null)
  from Cons.IH[OF this, of s "snd (fetcher w)"] show ?case
    unfolding call getOrSet_all_Cons[OF step]
    by (simp add: funpow_after del: getOrSet_all.simps)
qed

text \<open>
  Counterexample for claim C10, as stated. The key holds the live value 7 (stored at
  instant 0 with a TTL of 100 ms); two \<open>getOrSet\<close> calls at instants 10 and 20 with a
  supplier that resolves to null both return the cached 7, and the supplier is never
  invoked: its counter stays 0.
\<close>

theorem getOrSet_null_counterexample:
  "fst (counting_null_supplier 0) = Inr Null \<and>
   fst (getOrSet_all ''k'' counting_null_supplier None [(10, 11), (20, 21)] (short_lived, 0)) =
     [Inr (Val 7), Inr (Val 7)] \<and>
   snd (snd (getOrSet_all ''k'' counting_null_supplier None [(10, 11), (20, 21)] (short_lived, 0)))
     = 0"
  by (simp add: counting_null_supplier_def short_lived_def getOrSet_def cache_get_def expired_def)

text \<open>
  Claim C10, amended. A stored null reads back as the absent marker at every instant,
  inside the TTL window or not. So for a supplier that always resolves to null, and a
  first call whose lookup returns null (the key is missing, expired, or holds null),
  every call in a sequence of \<open>getOrSet\<close> calls on that key invokes the supplier and
  returns its null: the world after \<open>n\<close> calls is the world after \<open>n\<close> invocations of
  the supplier.
\<close>

theorem getOrSet_null_never_cached:
  assumes "\<forall>w. fst (fetcher w) = Inr Null" and "fst (cache_get t_get key c) = Null"
  shows "fst (cache_get now key (cache_set t_set key Null t c)) = Null \<and>
         fst (getOrSet_all key fetcher t ((t_get, t_set) # calls) (c, w)) =
           replicate (Suc (length calls)) (Inr Null) \<and>
         snd (snd (getOrSet_all key fetcher t ((t_get, t_set) # calls) (c, w))) =
           ((\<lambda>w. snd (fetcher w)) ^^ Suc (length calls)) w"
  using getOrSet_all_null[OF assms] cache_get_stored_null by blast

text \<open>
  Witness for claim C10, amended: three calls within a 60-second TTL, at instants 0 to 5, invoke
  the counting supplier three times.
\<close>

theorem getOrSet_null_never_cached_witness:
  "(\<forall>w. fst (counting_null_supplier w) = Inr Null) \<and>
   fst (cache_get 0 ''k'' (new_Cache default_config :: nat Cache)) = Null \<and>
   fst (getOrSet_all ''k'' counting_null_supplier (Some 60000) [(0, 1), (2, 3), (4, 5)]
          (new_Cache default_config, 0)) = [Inr Null, Inr Null, Inr Null] \<and>
   snd (snd (getOrSet_all ''k'' counting_null_supplier (Some 60000) [(0, 1), (2, 3), (4, 5)]
          (new_Cache default_config, 0))) = 3"
proof -
  have h1: "\<forall>w. fst (counting_null_supplier w) = Inr Null"
    by (simp add: counting_null_supplier_def)
  have h2: "fst (cache_get 0 ''k'' (new_Cache default_config :: nat Cache)) = Null"
    by (simp add: cache_get_def new_Cache_def)
  have "((\<lambda>w. snd (counting_null_supplier w)) ^^ 3) 0 = 3"
    by (simp add: counting_null_supplier_def numeral_3_eq_3)
  then show ?thesis
    using h1 h2 getOrSet_null_never_cached[OF h1 h2, of 0 1 "Some 60000" "[(2, 3), (4, 5)]" 0]
    by (simp add: numeral_3_eq_3)
qed

section \<open>Submitting a payment\<close>

lemma le_zero_if_zero_or_negative: "zero_or_negative a \<Longrightarrow> le_zero a"
  by (cases a) (auto simp: zero_or_negative_def)

text \<open>
  Claim C3. For a payment request whose amount is zero or negative, \<open>processPayment\<close>
  fails with the error that wraps "Payment amount must be greater than 0" (the
  specification's InvalidPayment), whatever the other fields, the wallet and the state
  are, and returns the state unchanged: no Payment record is created, and the payments
  map, the cache and the timers are as before.
\<close>

theorem processPayment_rejects_nonpositive_amount:
  assumes "zero_or_negative (PaymentRequest.amount paymentRequest)"
  shows "processPayment t_validate t_created newId ws paymentRequest uid options st =
           (Inl InvalidPayment_amount, st)"
  using le_zero_if_zero_or_negative[OF assms]
  by (simp add: processPayment_def validatePaymentRequest_def rethrow_def logger_error_def InvalidPayment_amount_def)

text \<open>Witness for claim C3: the amounts 0 and -1.5.\<close>

theorem processPayment_rejects_nonpositive_amount_witness:
  "zero_or_negative (PaymentRequest.amount (usdc_request\<lparr>PaymentRequest.amount := Fin 0\<rparr>)) \<and>
   zero_or_negative (PaymentRequest.amount (usdc_request\<lparr>PaymentRequest.amount := Fin (- 3/2)\<rparr>)) \<and>
   processPayment 10 20 ''payment_x'' (wallet_answering (Inr finalized))
       (usdc_request\<lparr>PaymentRequest.amount := Fin 0\<rparr>) ''alice'' no_options (holding alice_payment)
     = (Inl InvalidPayment_amount, holding alice_payment) \<and>
   processPayment 10 20 ''payment_x'' (wallet_answering (Inr finalized))
       (usdc_request\<lparr>PaymentRequest.amount := Fin (- 3/2)\<rparr>) ''alice'' no_options (holding alice_payment)
     = (Inl InvalidPayment_amount, holding alice_payment)"
proof -
  have h1: "zero_or_negative (PaymentRequest.amount (usdc_request\<lparr>PaymentRequest.amount := Fin 0\<rparr>))"
    by (simp add: zero_or_negative_def)
  have h2: "zero_or_negative (PaymentRequest.amount (usdc_request\<lparr>PaymentRequest.amount := Fin (- 3/2)\<rparr>))"
    by (simp add: zero_or_negative_def)
  show ?thesis
    using h1 h2
      processPayment_rejects_nonpositive_amount[OF h1, of 10 20 "''payment_x''"
        "wallet_answering (Inr finalized)" "''alice''" no_options "holding alice_payment"]
      processPayment_rejects_nonpositive_amount[OF h2, of 10 20 "''payment_x''"
        "wallet_answering (Inr finalized)" "''alice''" no_options "holding alice_payment"]
    by blast
qed

lemma processPayment_not_SOL:
  assumes "PaymentRequest.currency paymentRequest \<noteq> ''SOL''"
  shows "\<exists>e. processPayment t_validate t_created newId ws paymentRequest uid options st = (Inl e, st)"
  using assms
  by (auto simp: processPayment_def rethrow_def logger_error_def processSPLTokenPayment_def split: sum.splits)

text \<open>
  Counterexample for claim C8, as stated. A request in currency \<open>"USDC"\<close> fails with the
  wallet-not-connected error when no wallet is connected, and with the amount error when
  its amount is 0: validation and the wallet check come before the dispatch on the
  currency, so the error is not the not-implemented one.
\<close>

theorem processPayment_not_SOL_counterexample:
  "PaymentRequest.currency usdc_request \<noteq> ''SOL'' \<and>
   fst (processPayment 10 20 ''payment_x'' ((wallet_answering (Inr finalized))\<lparr>isWalletConnected := False\<rparr>)
          usdc_request ''alice'' no_options (holding alice_payment)) = Inl WalletNotConnected \<and>
   WalletNotConnected \<noteq> NotImplemented ''USDC'' \<and>
   fst (processPayment 10 20 ''payment_x'' (wallet_answering (Inr finalized))
          (usdc_request\<lparr>PaymentRequest.amount := Fin 0\<rparr>) ''alice'' no_options (holding alice_payment))
     = Inl InvalidPayment_amount \<and>
   InvalidPayment_amount \<noteq> NotImplemented ''USDC''"
  by (simp add: usdc_request_def wallet_answering_def processPayment_def validatePaymentRequest_def
      publicKeyFromString_def rethrow_def logger_error_def processSPLTokenPayment_def WalletNotConnected_def
      NotImplemented_def InvalidPayment_amount_def)

text \<open>
  Claim C8, amended. For every payment request whose currency is not \<open>"SOL"\<close>,
  \<open>processPayment\<close> fails and returns the state unchanged, so no Payment record is
  created; when the request passes validation and a wallet is connected, the error is
  the one that wraps "SPL token payments not yet implemented" for that currency.
\<close>

theorem processPayment_not_SOL_fails:
  assumes "PaymentRequest.currency paymentRequest \<noteq> ''SOL''"
  shows "(\<exists>e. processPayment t_validate t_created newId ws paymentRequest uid options st = (Inl e, st)) \<and>
         (validatePaymentRequest t_validate ws paymentRequest = Inr () \<and> isWalletConnected ws \<longrightarrow>
            processPayment t_validate t_created newId ws paymentRequest uid options st =
              (Inl (NotImplemented (PaymentRequest.currency paymentRequest)), st))"
  using assms processPayment_not_SOL[OF assms]
  by (simp add: processPayment_def rethrow_def logger_error_def processSPLTokenPayment_def NotImplemented_def)

text \<open>
  Witness for claim C8, amended: a valid request in \<open>"USDC"\<close> with a connected wallet.
\<close>

theorem processPayment_not_SOL_fails_witness:
  "PaymentRequest.currency usdc_request \<noteq> ''SOL'' \<and>
   validatePaymentRequest 10 (wallet_answering (Inr finalized)) usdc_request = Inr () \<and>
   isWalletConnected (wallet_answering (Inr finalized)) \<and>
   processPayment 10 20 ''payment_x'' (wallet_answering (Inr finalized)) usdc_request ''alice''
       no_options (holding alice_payment)
     = (Inl (NotImplemented ''USDC''), holding alice_payment)"
proof -
  have h1: "PaymentRequest.currency usdc_request \<noteq> ''SOL''"
    by (simp add: usdc_request_def)
  have h2: "validatePaymentRequest 10 (wallet_answering (Inr finalized)) usdc_request = Inr ()"
    by (simp add: usdc_request_def wallet_answering_def validatePaymentRequest_def
        publicKeyFromString_def)
  have h3: "isWalletConnected (wallet_answering (Inr finalized))"
    by (simp add: wallet_answering_def)
  have h4: "PaymentRequest.currency usdc_request = ''USDC''"
    by (simp add: usdc_request_def)
  show ?thesis
    using h1 h2 h3 h4
      processPayment_not_SOL_fails[OF h1, of 10 20 "''payment_x''" "wallet_answering (Inr finalized)"
        "''alice''" no_options "holding alice_payment"]
    by simp
qed

section \<open>Verifying a payment\<close>

lemma payments_getPayment [simp]: "payments (snd (getPayment now paymentId st)) = payments st"
  by (simp add: getPayment_def split: prod.splits nullable.splits option.splits)

lemma getPayment_stored:
  assumes "map_get paymentId (payments st) = Some p0"
  shows "\<exists>p. fst (getPayment now paymentId st) = Some p"
  using assms by (simp add: getPayment_def split: prod.splits nullable.splits)

text \<open>
  The lookup returns the stored record itself when the cache has no live entry under the
  key, or has the stored record there.
\<close>

lemma getPayment_returns_stored:
  assumes "map_get paymentId (payments st) = Some p"
    and "fst (getPayment now paymentId st) = Some q"
    and "fst (cache_get now (payment_key paymentId) (cache st)) = Null \<or>
         fst (cache_get now (payment_key paymentId) (cache st)) = Val p"
  shows "q = p"
  using assms by (auto simp: getPayment_def split: prod.splits nullable.splits)

lemma store_cache_set:
  "map_get key (store (cache_set now key d t c)) =
     Some \<lparr>data = d, timestamp = now, ttl = ttl_or_default t (config c)\<rparr>"
  by (simp add: cache_set_def)

lemma verifyPayment_confirmed_branch:
  assumes "fst (getPayment t_lookup paymentId st) = Some q"
    and "getSignatureStatus ws (txSignature q) = Inr r" and "reports_confirmed r"
  shows "verifyPayment t_lookup t_update ws paymentId st =
          (Inr (q\<lparr>status := CONFIRMED, confirmedAt := Some t_update\<rparr>),
           (snd (getPayment t_lookup paymentId st))
             \<lparr>payments := map_set paymentId (q\<lparr>status := CONFIRMED, confirmedAt := Some t_update\<rparr>)
                            (payments st),
              cache := cache_set t_update (payment_key paymentId)
                         (Val (q\<lparr>status := CONFIRMED, confirmedAt := Some t_update\<rparr>))
                         (Some (60 * 60 * 1000)) (cache (snd (getPayment t_lookup paymentId st)))\<rparr>)"
  using assms payments_getPayment[of t_lookup paymentId st]
  by (cases "getPayment t_lookup paymentId st") (simp add: verifyPayment_def Let_def)

lemma verifyPayment_failed_branch:
  assumes "fst (getPayment t_lookup paymentId st) = Some q"
    and "getSignatureStatus ws (txSignature q) = Inr r"
    and "\<not> reports_confirmed r" and "reports_error r"
  shows "verifyPayment t_lookup t_update ws paymentId st =
          (Inr (q\<lparr>status := FAILED\<rparr>),
           (snd (getPayment t_lookup paymentId st))
             \<lparr>payments := map_set paymentId (q\<lparr>status := FAILED\<rparr>) (payments st),
              cache := cache_set t_update (payment_key paymentId) (Val (q\<lparr>status := FAILED\<rparr>))
                         (Some (60 * 60 * 1000)) (cache (snd (getPayment t_lookup paymentId st)))\<rparr>)"
  using assms payments_getPayment[of t_lookup paymentId st]
  by (cases "getPayment t_lookup paymentId st") (simp add: verifyPayment_def Let_def)

lemma verifyPayment_pending_branch:
  assumes "fst (getPayment t_lookup paymentId st) = Some q"
    and "getSignatureStatus ws (txSignature q) = Inr r"
    and "\<not> reports_confirmed r" and "\<not> reports_error r"
  shows "verifyPayment t_lookup t_update ws paymentId st =
          (Inr q, snd (getPayment t_lookup paymentId st))"
  using assms
  by (cases "getPayment t_lookup paymentId st") (simp add: verifyPayment_def Let_def)

lemma verifyPayment_oracle_fails:
  assumes "fst (getPayment t_lookup paymentId st) = Some q"
    and "getSignatureStatus ws (txSignature q) = Inl e"
  shows "\<exists>e'. verifyPayment t_lookup t_update ws paymentId st =
          (Inl e', snd (getPayment t_lookup paymentId st))"
  using assms
  by (cases "getPayment t_lookup paymentId st")
     (simp add: verifyPayment_def rethrow_def Let_def split: option.splits)

text \<open>
  Claim C7. For a payment stored in the payments map, when the status oracle, asked
  about the signature of the record \<open>q\<close> that the lookup returns, reports "confirmed" or
  "finalized", \<open>verifyPayment\<close> returns \<open>q\<close> with status CONFIRMED and \<open>confirmedAt\<close> set to
  the instant of the update (not null), all other fields kept. The payments map after
  the call is the map before with that record stored under the id (every other id
  unchanged), and the cache after the call is the cache left by the lookup with that
  record stored under \<open>payment:<id>\<close> for one hour, so a cache read within the hour
  returns it. \<open>q\<close> is the stored record itself unless the cache held another live record
  under the key.
\<close>

theorem verifyPayment_confirms:
  assumes "map_get paymentId (payments st) = Some p0"
    and "\<forall>p. fst (getPayment t_lookup paymentId st) = Some p \<longrightarrow>
           (\<exists>r. getSignatureStatus ws (txSignature p) = Inr r \<and> reports_confirmed r)"
  shows "\<exists>q up.
           fst (getPayment t_lookup paymentId st) = Some q \<and>
           (fst (cache_get t_lookup (payment_key paymentId) (cache st)) = Null \<or>
            fst (cache_get t_lookup (payment_key paymentId) (cache st)) = Val p0 \<longrightarrow> q = p0) \<and>
           up = q\<lparr>status := CONFIRMED, confirmedAt := Some t_update\<rparr> \<and>
           status up = CONFIRMED \<and> confirmedAt up = Some t_update \<and>
           fst (verifyPayment t_lookup t_update ws paymentId st) = Inr up \<and>
           payments (snd (verifyPayment t_lookup t_update ws paymentId st)) =
             map_set paymentId up (payments st) \<and>
           cache (snd (verifyPayment t_lookup t_update ws paymentId st)) =
             cache_set t_update (payment_key paymentId) (Val up) (Some (60 * 60 * 1000))
               (cache (snd (getPayment t_lookup paymentId st))) \<and>
           map_get paymentId (payments (snd (verifyPayment t_lookup t_update ws paymentId st))) =
             Some up \<and>
           (\<forall>other. other \<noteq> paymentId \<longrightarrow>
              map_get other (payments (snd (verifyPayment t_lookup t_update ws paymentId st))) =
                map_get other (payments st)) \<and>
           map_get (payment_key paymentId)
               (store (cache (snd (verifyPayment t_lookup t_update ws paymentId st)))) =
             Some \<lparr>data = Val up, timestamp = t_update, ttl = 60 * 60 * 1000\<rparr> \<and>
           (\<forall>now. now - t_update \<le> 60 * 60 * 1000 \<longrightarrow>
              fst (cache_get now (payment_key paymentId)
                     (cache (snd (verifyPayment t_lookup t_update ws paymentId st)))) = Val up)"
proof -
  from getPayment_stored[OF assms(1)] obtain q where q: "fst (getPayment t_lookup paymentId st) = Some q"
    by blast
  with assms(2) obtain r where r: "getSignatureStatus ws (txSignature q) = Inr r" "reports_confirmed r"
    by blast
  have same: "fst (cache_get t_lookup (payment_key paymentId) (cache st)) = Null \<or>
            fst (cache_get t_lookup (payment_key paymentId) (cache st)) = Val p0 \<longrightarrow> q = p0"
    using getPayment_returns_stored[OF assms(1) q] by blast
  show ?thesis
    apply (rule exI[of _ q])
    apply (rule exI[of _ "q\<lparr>status := CONFIRMED, confirmedAt := Some t_update\<rparr>"])
    unfolding verifyPayment_confirmed_branch[OF q r]
    using q same
    by (simp add: store_cache_set cache_get_def expired_def ttl_or_default_def)
qed

text \<open>
  Witness for claim C7: a pending payment, a cold cache and an oracle response
  "finalized".
\<close>

theorem verifyPayment_confirms_witness:
  "map_get ''p1'' (payments (holding alice_payment)) = Some alice_payment \<and>
   fst (getPayment 200 ''p1'' (holding alice_payment)) = Some alice_payment \<and>
   getSignatureStatus (wallet_answering (Inr finalized)) (txSignature alice_payment) = Inr finalized \<and>
   reports_confirmed finalized \<and>
   fst (verifyPayment 200 201 (wallet_answering (Inr finalized)) ''p1'' (holding alice_payment)) =
     Inr (alice_payment\<lparr>status := CONFIRMED, confirmedAt := Some 201\<rparr>) \<and>
   payments (snd (verifyPayment 200 201 (wallet_answering (Inr finalized)) ''p1''
                    (holding alice_payment))) =
     [(''p1'', alice_payment\<lparr>status := CONFIRMED, confirmedAt := Some 201\<rparr>)] \<and>
   fst (cache_get 500 (payment_key ''p1'')
          (cache (snd (verifyPayment 200 201 (wallet_answering (Inr finalized)) ''p1''
                         (holding alice_payment))))) =
     Val (alice_payment\<lparr>status := CONFIRMED, confirmedAt := Some 201\<rparr>)"
proof -
  have h1: "map_get ''p1'' (payments (holding alice_payment)) = Some alice_payment"
    by (simp add: example_defs)
  have h2: "\<forall>p. fst (getPayment 200 ''p1'' (holding alice_payment)) = Some p \<longrightarrow>
      (\<exists>r. getSignatureStatus (wallet_answering (Inr finalized)) (txSignature p) = Inr r \<and>
           reports_confirmed r)"
    by (simp add: example_defs reports_confirmed_def)
  have h3: "fst (getPayment 200 ''p1'' (holding alice_payment)) = Some alice_payment"
    by (simp add: example_defs processor_defs)
  have h4: "getSignatureStatus (wallet_answering (Inr finalized)) (txSignature alice_payment) = Inr finalized"
    by (simp add: wallet_answering_def)
  have h5: "reports_confirmed finalized"
    by (simp add: finalized_def reports_confirmed_def)
  have h6: "payments (holding alice_payment) = [(''p1'', alice_payment)]"
    by (simp add: example_defs)
  from verifyPayment_confirms[OF h1 h2, of 201] obtain q up where
    q: "fst (getPayment 200 ''p1'' (holding alice_payment)) = Some q"
    and up: "up = q\<lparr>status := CONFIRMED, confirmedAt := Some 201\<rparr>"
    and r: "fst (verifyPayment 200 201 (wallet_answering (Inr finalized)) ''p1''
                   (holding alice_payment)) = Inr up"
    and m: "payments (snd (verifyPayment 200 201 (wallet_answering (Inr finalized)) ''p1''
                   (holding alice_payment))) = map_set ''p1'' up (payments (holding alice_payment))"
    and c: "\<forall>now. now - 201 \<le> 60 * 60 * 1000 \<longrightarrow>
              fst (cache_get now (payment_key ''p1'')
                     (cache (snd (verifyPayment 200 201 (wallet_answering (Inr finalized)) ''p1''
                                    (holding alice_payment))))) = Val up"
    by blast
  from q h3 have qa: "q = alice_payment" by simp
  from c have c500: "fst (cache_get 500 (payment_key ''p1'')
                     (cache (snd (verifyPayment 200 201 (wallet_answering (Inr finalized)) ''p1''
                                    (holding alice_payment))))) = Val up"
    by simp
  show ?thesis
    using h1 h3 h4 h5 r m c500 by (simp add: up qa h6)
qed

text \<open>
  Counterexample for claim C1, as stated. A CONFIRMED payment with \<open>confirmedAt = 100\<close>,
  verified at instant 200 while the oracle reports "finalized", is stored again with
  \<open>confirmedAt = 200\<close>; the same payment verified while the oracle reports a transaction
  error and no confirmation becomes FAILED.
\<close>

theorem verifyPayment_terminal_counterexample:
  "terminal (status confirmed_payment) \<and>
   map_option confirmedAt (map_get ''p1'' (payments (holding confirmed_payment))) = Some (Some 100) \<and>
   map_option confirmedAt
     (map_get ''p1'' (payments (snd (verifyPayment 200 200 (wallet_answering (Inr finalized)) ''p1''
                                       (holding confirmed_payment))))) = Some (Some 200) \<and>
   map_option status
     (map_get ''p1'' (payments (snd (verifyPayment 200 200 (wallet_answering (Inr transaction_error)) ''p1''
                                       (holding confirmed_payment))))) = Some FAILED"
  by (simp add: example_defs processor_defs terminal_def)

text \<open>
  Claim C1, amended. \<open>verifyPayment\<close> does not look at the current status. For every
  stored payment, whatever its status (CONFIRMED, FAILED and CANCELLED included), with
  \<open>q\<close> the record the lookup returns (the stored record itself unless the cache holds
  another live record under the key): when the oracle reports "confirmed" or
  "finalized", the stored record becomes \<open>q\<close> with status CONFIRMED and \<open>confirmedAt\<close>
  the instant of the update; when it reports no confirmation but an error, the stored
  record becomes \<open>q\<close> with status FAILED; when it reports neither, or the query fails,
  the payments map is unchanged, so the stored record keeps its status and its
  \<open>confirmedAt\<close>.
\<close>

theorem verifyPayment_follows_report:
  assumes "map_get paymentId (payments st) = Some p"
    and "fst (getPayment t_lookup paymentId st) = Some q"
  shows "(fst (cache_get t_lookup (payment_key paymentId) (cache st)) = Null \<or>
          fst (cache_get t_lookup (payment_key paymentId) (cache st)) = Val p \<longrightarrow> q = p) \<and>
         (\<forall>r. getSignatureStatus ws (txSignature q) = Inr r \<and> reports_confirmed r \<longrightarrow>
            fst (verifyPayment t_lookup t_update ws paymentId st) =
              Inr (q\<lparr>status := CONFIRMED, confirmedAt := Some t_update\<rparr>) \<and>
            map_get paymentId (payments (snd (verifyPayment t_lookup t_update ws paymentId st))) =
              Some (q\<lparr>status := CONFIRMED, confirmedAt := Some t_update\<rparr>)) \<and>
         (\<forall>r. getSignatureStatus ws (txSignature q) = Inr r \<and> \<not> reports_confirmed r \<and>
              reports_error r \<longrightarrow>
            fst (verifyPayment t_lookup t_update ws paymentId st) = Inr (q\<lparr>status := FAILED\<rparr>) \<and>
            map_get paymentId (payments (snd (verifyPayment t_lookup t_update ws paymentId st))) =
              Some (q\<lparr>status := FAILED\<rparr>)) \<and>
         (\<forall>r. getSignatureStatus ws (txSignature q) = Inr r \<and> \<not> reports_confirmed r \<and>
              \<not> reports_error r \<longrightarrow>
            fst (verifyPayment t_lookup t_update ws paymentId st) = Inr q \<and>
            payments (snd (verifyPayment t_lookup t_update ws paymentId st)) = payments st \<and>
            map_get paymentId (payments (snd (verifyPayment t_lookup t_update ws paymentId st))) =
              Some p) \<and>
         (\<forall>e. getSignatureStatus ws (txSignature q) = Inl e \<longrightarrow>
            (\<exists>e'. fst (verifyPayment t_lookup t_update ws paymentId st) = Inl e') \<and>
            payments (snd (verifyPayment t_lookup t_update ws paymentId st)) = payments st \<and>
            map_get paymentId (payments (snd (verifyPayment t_lookup t_update ws paymentId st))) =
              Some p)"
proof (intro conjI allI impI)
  show "q = p"
    if "fst (cache_get t_lookup (payment_key paymentId) (cache st)) = Null \<or>
        fst (cache_get t_lookup (payment_key paymentId) (cache st)) = Val p"
    using getPayment_returns_stored[OF assms that] .
next
  fix r assume a: "getSignatureStatus ws (txSignature q) = Inr r \<and> reports_confirmed r"
  then have v: "verifyPayment t_lookup t_update ws paymentId st =
          (Inr (q\<lparr>status := CONFIRMED, confirmedAt := Some t_update\<rparr>),
           (snd (getPayment t_lookup paymentId st))
             \<lparr>payments := map_set paymentId (q\<lparr>status := CONFIRMED, confirmedAt := Some t_update\<rparr>)
                            (payments st),
              cache := cache_set t_update (payment_key paymentId)
                         (Val (q\<lparr>status := CONFIRMED, confirmedAt := Some t_update\<rparr>))
                         (Some (60 * 60 * 1000)) (cache (snd (getPayment t_lookup paymentId st)))\<rparr>)"
    using verifyPayment_confirmed_branch[OF assms(2)] by blast
  show "fst (verifyPayment t_lookup t_update ws paymentId st) =
              Inr (q\<lparr>status := CONFIRMED, confirmedAt := Some t_update\<rparr>)"
    by (simp add: v)
  show "map_get paymentId (payments (snd (verifyPayment t_lookup t_update ws paymentId st))) =
              Some (q\<lparr>status := CONFIRMED, confirmedAt := Some t_update\<rparr>)"
    by (simp add: v)
next
  fix r assume a: "getSignatureStatus ws (txSignature q) = Inr r \<and> \<not> reports_confirmed r \<and>
              reports_error r"
  then have v: "verifyPayment t_lookup t_update ws paymentId st =
          (Inr (q\<lparr>status := FAILED\<rparr>),
           (snd (getPayment t_lookup paymentId st))
             \<lparr>payments := map_set paymentId (q\<lparr>status := FAILED\<rparr>) (payments st),
              cache := cache_set t_update (payment_key paymentId) (Val (q\<lparr>status := FAILED\<rparr>))
                         (Some (60 * 60 * 1000)) (cache (snd (getPayment t_lookup paymentId st)))\<rparr>)"
    using verifyPayment_failed_branch[OF assms(2)] by blast
  show "fst (verifyPayment t_lookup t_update ws paymentId st) = Inr (q\<lparr>status := FAILED\<rparr>)"
    by (simp add: v)
  show "map_get paymentId (payments (snd (verifyPayment t_lookup t_update ws paymentId st))) =
              Some (q\<lparr>status := FAILED\<rparr>)"
    by (simp add: v)
next
  fix r assume a: "getSignatureStatus ws (txSignature q) = Inr r \<and> \<not> reports_confirmed r \<and>
              \<not> reports_error r"
  then have v: "verifyPayment t_lookup t_update ws paymentId st =
          (Inr q, snd (getPayment t_lookup paymentId st))"
    using verifyPayment_pending_branch[OF assms(2)] by blast
  show "fst (verifyPayment t_lookup t_update ws paymentId st) = Inr q"
    by (simp add: v)
  show "payments (snd (verifyPayment t_lookup t_update ws paymentId st)) = payments st"
    by (simp add: v)
  then show "map_get paymentId (payments (snd (verifyPayment t_lookup t_update ws paymentId st))) =
              Some p"
    using assms(1) by simp
next
  fix e assume a: "getSignatureStatus ws (txSignature q) = Inl e"
  from verifyPayment_oracle_fails[OF assms(2) a] obtain e' where
    v: "verifyPayment t_lookup t_update ws paymentId st =
          (Inl e', snd (getPayment t_lookup paymentId st))" by blast
  show "\<exists>e'. fst (verifyPayment t_lookup t_update ws paymentId st) = Inl e'"
    by (simp add: v)
  show "payments (snd (verifyPayment t_lookup t_update ws paymentId st)) = payments st"
    by (simp add: v)
  then show "map_get paymentId (payments (snd (verifyPayment t_lookup t_update ws paymentId st))) =
              Some p"
    using assms(1) by simp
qed

text \<open>
  Witness for claim C1, amended: a CONFIRMED payment with \<open>confirmedAt = 100\<close>, a cold
  cache, verified at instants 200 and 201 against an oracle that reports "finalized",
  one that reports an error only, one that reports "processed" without an error, and
  one that cannot be reached.
\<close>

theorem verifyPayment_follows_report_witness:
  "map_get ''p1'' (payments (holding confirmed_payment)) = Some confirmed_payment \<and>
   fst (getPayment 200 ''p1'' (holding confirmed_payment)) = Some confirmed_payment \<and>
   fst (cache_get 200 (payment_key ''p1'') (cache (holding confirmed_payment))) = Null \<and>
   terminal (status confirmed_payment) \<and>
   map_get ''p1'' (payments (snd (verifyPayment 200 201 (wallet_answering (Inr finalized)) ''p1''
                                    (holding confirmed_payment)))) =
     Some (confirmed_payment\<lparr>status := CONFIRMED, confirmedAt := Some 201\<rparr>) \<and>
   map_get ''p1'' (payments (snd (verifyPayment 200 201 (wallet_answering (Inr transaction_error)) ''p1''
                                    (holding confirmed_payment)))) =
     Some (confirmed_payment\<lparr>status := FAILED\<rparr>) \<and>
   map_get ''p1'' (payments (snd (verifyPayment 200 201 (wallet_answering (Inr still_processed)) ''p1''
                                    (holding confirmed_payment)))) =
     Some confirmed_payment \<and>
   map_get ''p1'' (payments (snd (verifyPayment 200 201
                                    (wallet_answering (Inl (ExternalError ''fetch failed''))) ''p1''
                                    (holding confirmed_payment)))) =
     Some confirmed_payment"
proof -
  have h1: "map_get ''p1'' (payments (holding confirmed_payment)) = Some confirmed_payment"
    by (simp add: example_defs)
  have h2: "fst (getPayment 200 ''p1'' (holding confirmed_payment)) = Some confirmed_payment"
    by (simp add: example_defs processor_defs)
  have h3: "fst (cache_get 200 (payment_key ''p1'') (cache (holding confirmed_payment))) = Null"
    by (simp add: example_defs processor_defs)
  have h4: "terminal (status confirmed_payment)"
    by (simp add: example_defs terminal_def)
  have a1: "getSignatureStatus (wallet_answering (Inr finalized)) (txSignature confirmed_payment)
              = Inr finalized \<and> reports_confirmed finalized"
    by (simp add: example_defs reports_confirmed_def)
  have a2: "getSignatureStatus (wallet_answering (Inr transaction_error)) (txSignature confirmed_payment)
              = Inr transaction_error \<and> \<not> reports_confirmed transaction_error \<and>
            reports_error transaction_error"
    by (simp add: example_defs reports_confirmed_def reports_error_def)
  have a3: "getSignatureStatus (wallet_answering (Inr still_processed)) (txSignature confirmed_payment)
              = Inr still_processed \<and> \<not> reports_confirmed still_processed \<and>
            \<not> reports_error still_processed"
    by (simp add: example_defs reports_confirmed_def reports_error_def)
  have a4: "getSignatureStatus (wallet_answering (Inl (ExternalError ''fetch failed'')))
              (txSignature confirmed_payment) = Inl (ExternalError ''fetch failed'')"
    by (simp add: example_defs)
  have r1: "map_get ''p1'' (payments (snd (verifyPayment 200 201 (wallet_answering (Inr finalized))
                ''p1'' (holding confirmed_payment)))) =
              Some (confirmed_payment\<lparr>status := CONFIRMED, confirmedAt := Some 201\<rparr>)"
    using a1 verifyPayment_follows_report[OF h1 h2, of "wallet_answering (Inr finalized)" 201]
    by blast
  have r2: "map_get ''p1'' (payments (snd (verifyPayment 200 201
                (wallet_answering (Inr transaction_error)) ''p1'' (holding confirmed_payment)))) =
              Some (confirmed_payment\<lparr>status := FAILED\<rparr>)"
    using a2 verifyPayment_follows_report[OF h1 h2, of "wallet_answering (Inr transaction_error)" 201]
    by blast
  have r3: "map_get ''p1'' (payments (snd (verifyPayment 200 201
                (wallet_answering (Inr still_processed)) ''p1'' (holding confirmed_payment)))) =
              Some confirmed_payment"
    using a3 verifyPayment_follows_report[OF h1 h2, of "wallet_answering (Inr still_processed)" 201]
    by blast
  have r4: "map_get ''p1'' (payments (snd (verifyPayment 200 201
                (wallet_answering (Inl (ExternalError ''fetch failed''))) ''p1''
                (holding confirmed_payment)))) =
              Some confirmed_payment"
    using a4 verifyPayment_follows_report[OF h1 h2,
        of "wallet_answering (Inl (ExternalError ''fetch failed''))" 201]
    by blast
  show ?thesis
    by (intro conjI) (rule h1 h2 h3 h4 r1 r2 r3 r4)+
qed

section \<open>Listing payments\<close>


lemma the_limit_effective [simp]: "the_limit (effective options) = the_limit options"
  by (simp add: the_limit_def effective_def)

lemma the_offset_effective [simp]: "the_offset (effective options) = the_offset options"
  by (simp add: the_offset_def effective_def)










section \<open>The confirmation poller\<close>

text \<open>
  An error that \<open>verifyPayment\<close> throws has passed through its own \<open>catch\<close>, so logging it
  again at the same level does not throw.
\<close>

lemma rethrow_loggable:
  "rethrow configured msg (Inl e0) = Inl e \<Longrightarrow> logger_error configured e = None"
  by (auto simp: rethrow_def logger_error_def split: option.splits if_splits)

lemma verifyPayment_error_loggable:
  assumes "verifyPayment t_lookup t_update ws paymentId st = (Inl e, st1)"
  shows "logger_error (logLevel st1) e = None"
  using assms
  by (cases "getPayment t_lookup paymentId st")
     (auto simp: verifyPayment_def Let_def dest: rethrow_loggable
           split: option.splits sum.splits if_splits)

text \<open>One round of \<open>checkConfirmation\<close>, by the outcome of its check.\<close>

lemma checkConfirmation_error:
  assumes "verifyPayment (fst (world attempts)) (fst (snd (world attempts)))
             (snd (snd (world attempts))) paymentId st = (Inl e, st1)"
  shows "checkConfirmation world paymentId attempts st =
           (None, [Verified (Inl e), ErrorLogged e], st1)"
  using assms verifyPayment_error_loggable[OF assms]
  by (subst checkConfirmation.simps) simp

lemma checkConfirmation_stop:
  assumes "verifyPayment (fst (world attempts)) (fst (snd (world attempts)))
             (snd (snd (world attempts))) paymentId st = (Inr p, st1)"
    and "status p = CONFIRMED \<or> status p = FAILED"
  shows "checkConfirmation world paymentId attempts st = (None, [Verified (Inr p)], st1)"
  using assms by (subst checkConfirmation.simps) auto

lemma checkConfirmation_timeout:
  assumes "verifyPayment (fst (world attempts)) (fst (snd (world attempts)))
             (snd (snd (world attempts))) paymentId st = (Inr p, st1)"
    and "status p \<noteq> CONFIRMED" "status p \<noteq> FAILED" and "\<not> attempts + 1 < maxAttempts"
  shows "checkConfirmation world paymentId attempts st =
           (None, [Verified (Inr p), TimeoutLogged], st1)"
  using assms by (subst checkConfirmation.simps) auto

lemma checkConfirmation_again:
  assumes "verifyPayment (fst (world attempts)) (fst (snd (world attempts)))
             (snd (snd (world attempts))) paymentId st = (Inr p, st1)"
    and "status p \<noteq> CONFIRMED" "status p \<noteq> FAILED" and "attempts + 1 < maxAttempts"
  shows "checkConfirmation world paymentId attempts st =
           (fst (checkConfirmation world paymentId (attempts + 1) st1),
            Verified (Inr p) # Delay 10000 #
              fst (snd (checkConfirmation world paymentId (attempts + 1) st1)),
            snd (snd (checkConfirmation world paymentId (attempts + 1) st1)))"
  using assms by (subst checkConfirmation.simps) (auto split: prod.splits)

text \<open>Induction over the rounds of the poller.\<close>

lemma checkConfirmation_rounds [case_names error stop timeout again]:
  assumes error: "\<And>attempts e st1. P attempts (None, [Verified (Inl e), ErrorLogged e], st1)"
    and stop: "\<And>attempts p st1. status p = CONFIRMED \<or> status p = FAILED \<Longrightarrow>
                 P attempts (None, [Verified (Inr p)], st1)"
    and timeout: "\<And>attempts p st1. status p \<noteq> CONFIRMED \<Longrightarrow> status p \<noteq> FAILED \<Longrightarrow>
                 \<not> attempts + 1 < maxAttempts \<Longrightarrow>
                 P attempts (None, [Verified (Inr p), TimeoutLogged], st1)"
    and again: "\<And>attempts p thrown events st2. status p \<noteq> CONFIRMED \<Longrightarrow> status p \<noteq> FAILED \<Longrightarrow>
                 attempts + 1 < maxAttempts \<Longrightarrow> P (attempts + 1) (thrown, events, st2) \<Longrightarrow>
                 P attempts (thrown, Verified (Inr p) # Delay 10000 # events, st2)"
  shows "P attempts (checkConfirmation world paymentId attempts st)"
proof (induction world paymentId attempts st rule: checkConfirmation.induct)
  case (1 world paymentId attempts st)
  obtain r st1 where v: "verifyPayment (fst (world attempts)) (fst (snd (world attempts)))
          (snd (snd (world attempts))) paymentId st = (r, st1)"
    by (cases "verifyPayment (fst (world attempts)) (fst (snd (world attempts)))
          (snd (snd (world attempts))) paymentId st")
  show ?case
  proof (cases r)
    case (Inl e)
    show ?thesis
      unfolding checkConfirmation_error[where world = world and attempts = attempts, OF v[unfolded Inl]] by (rule error)
  next
    case (Inr p)
    note vp = v[unfolded Inr]
    show ?thesis
    proof (cases "status p = CONFIRMED \<or> status p = FAILED")
      case True
      show ?thesis
        unfolding checkConfirmation_stop[where world = world and attempts = attempts, OF vp True] by (rule stop[OF True])
    next
      case False
      then have np: "status p \<noteq> CONFIRMED" "status p \<noteq> FAILED" by simp_all
      show ?thesis
      proof (cases "attempts + 1 < maxAttempts")
        case True
        have ih: "P (attempts + 1) (checkConfirmation world paymentId (attempts + 1) st1)"
          using "1"[OF v[symmetric] Inr False True] .
        obtain thrown events st2 where
          c: "checkConfirmation world paymentId (attempts + 1) st1 = (thrown, events, st2)"
          by (cases "checkConfirmation world paymentId (attempts + 1) st1")
        show ?thesis
          unfolding checkConfirmation_again[where world = world and attempts = attempts, OF vp np True] c
          using again[OF np True ih[unfolded c]] by simp
      next
        case False
        show ?thesis
          unfolding checkConfirmation_timeout[where world = world and attempts = attempts, OF vp np False] by (rule timeout[OF np False])
      qed
    qed
  qed
qed

text \<open>No error escapes \<open>checkConfirmation\<close>.\<close>

lemma checkConfirmation_never_throws:
  "fst (checkConfirmation world paymentId attempts st) = None"
  by (rule checkConfirmation_rounds[where P = "\<lambda>attempts res. fst res = None"]) simp_all

text \<open>The number of checks from attempt \<open>attempts\<close> on is within the remaining budget.\<close>

lemma checkConfirmation_checks_bounded:
  "attempts < maxAttempts \<longrightarrow>
   checks (fst (snd (checkConfirmation world paymentId attempts st))) \<le> maxAttempts - attempts"
  by (rule checkConfirmation_rounds[where P = "\<lambda>attempts res.
        attempts < maxAttempts \<longrightarrow> checks (fst (snd res)) \<le> maxAttempts - attempts"])
     (auto simp: checks_def)

text \<open>
  A trace that ends in the timeout has no failed check in it: every check succeeded and
  found the payment neither CONFIRMED nor FAILED, and the checks used up the budget.
\<close>

lemma checkConfirmation_timeout_trace:
  "TimeoutLogged \<in> set (fst (snd (checkConfirmation world paymentId attempts st))) \<longrightarrow>
     all_checks_pending (fst (snd (checkConfirmation world paymentId attempts st))) \<and>
     (attempts < maxAttempts \<longrightarrow>
        checks (fst (snd (checkConfirmation world paymentId attempts st))) = maxAttempts - attempts)"
  by (rule checkConfirmation_rounds[where P = "\<lambda>attempts res.
        TimeoutLogged \<in> set (fst (snd res)) \<longrightarrow>
          all_checks_pending (fst (snd res)) \<and>
          (attempts < maxAttempts \<longrightarrow> checks (fst (snd res)) = maxAttempts - attempts)"])
     (auto simp: checks_def all_checks_pending_def)

text \<open>
  A logged error ends the trace, right after the check that threw it, and every check
  before it succeeded and found the payment neither CONFIRMED nor FAILED.
\<close>

lemma checkConfirmation_error_trace:
  "\<forall>e. ErrorLogged e \<in> set (fst (snd (checkConfirmation world paymentId attempts st))) \<longrightarrow>
     (\<exists>pre. fst (snd (checkConfirmation world paymentId attempts st)) =
              pre @ [Verified (Inl e), ErrorLogged e] \<and> all_checks_pending pre)"
proof (rule checkConfirmation_rounds[where P = "\<lambda>attempts res.
        \<forall>e. ErrorLogged e \<in> set (fst (snd res)) \<longrightarrow>
          (\<exists>pre. fst (snd res) = pre @ [Verified (Inl e), ErrorLogged e] \<and>
                 all_checks_pending pre)"], goal_cases)
  case (1 attempts e st1)
  show ?case by (auto simp: all_checks_pending_def)
next
  case (2 attempts p st1)
  show ?case by simp
next
  case (3 attempts p st1)
  show ?case by simp
next
  case (4 attempts p thrown events st2)
  show ?case
  proof (intro allI impI)
    fix e
    assume "ErrorLogged e \<in> set (fst (snd (thrown, Verified (Inr p) # Delay 10000 # events, st2)))"
    then have "ErrorLogged e \<in> set events" by simp
    with "4"(4) obtain pre where pre: "events = pre @ [Verified (Inl e), ErrorLogged e]"
      and ok: "all_checks_pending pre" by auto
    have "all_checks_pending (Verified (Inr p) # Delay 10000 # pre)"
      using ok "4"(1,2) by (simp add: all_checks_pending_def)
    moreover have "Verified (Inr p) # Delay 10000 # events =
        (Verified (Inr p) # Delay 10000 # pre) @ [Verified (Inl e), ErrorLogged e]"
      by (simp add: pre)
    ultimately show "\<exists>pre. fst (snd (thrown, Verified (Inr p) # Delay 10000 # events, st2)) =
              pre @ [Verified (Inl e), ErrorLogged e] \<and> all_checks_pending pre"
      by (metis fst_conv snd_conv)
  qed
qed

lemma checkConfirmation_on_error:
  assumes "world attempts = (t_lookup, t_update, ws)"
    and "fst (verifyPayment t_lookup t_update ws paymentId st) = Inl e"
  shows "checkConfirmation world paymentId attempts st =
           (None, [Verified (Inl e), ErrorLogged e],
            snd (verifyPayment t_lookup t_update ws paymentId st))"
proof -
  obtain st1 where v: "verifyPayment t_lookup t_update ws paymentId st = (Inl e, st1)"
    using assms(2) by (cases "verifyPayment t_lookup t_update ws paymentId st") simp
  then have "verifyPayment (fst (world attempts)) (fst (snd (world attempts)))
             (snd (snd (world attempts))) paymentId st = (Inl e, st1)"
    by (simp add: assms(1))
  from checkConfirmation_error[where world = world and attempts = attempts, OF this] show ?thesis by (simp add: v)
qed

text \<open>
  When every remaining check finds the payment pending and leaves the state as it is,
  the poller runs into the timeout.
\<close>

lemma polling_times_out:
  assumes "\<And>k. attempts \<le> k \<Longrightarrow> k < maxAttempts \<Longrightarrow>
             \<exists>p. verifyPayment (fst (world k)) (fst (snd (world k))) (snd (snd (world k)))
                    paymentId st = (Inr p, st) \<and> status p \<noteq> CONFIRMED \<and> status p \<noteq> FAILED"
    and "attempts < maxAttempts"
  shows "TimeoutLogged \<in> set (fst (snd (checkConfirmation world paymentId attempts st)))"
  using assms
proof (induction "maxAttempts - attempts" arbitrary: attempts)
  case 0
  then show ?case by simp
next
  case (Suc n)
  from Suc.prems(1)[of attempts] Suc.prems(2) obtain p where
    v: "verifyPayment (fst (world attempts)) (fst (snd (world attempts)))
          (snd (snd (world attempts))) paymentId st = (Inr p, st)"
    and np: "status p \<noteq> CONFIRMED" "status p \<noteq> FAILED" by auto
  show ?case
  proof (cases "attempts + 1 < maxAttempts")
    case True
    have "TimeoutLogged \<in> set (fst (snd (checkConfirmation world paymentId (attempts + 1) st)))"
      using Suc.hyps(2) Suc.prems(1) True by (intro Suc.hyps(1)) auto
    then show ?thesis
      unfolding checkConfirmation_again[where world = world and attempts = attempts, OF v np True] by simp
  next
    case False
    show ?thesis
      unfolding checkConfirmation_timeout[where world = world and attempts = attempts, OF v np False] by simp
  qed
qed

lemma first_check_while_processing:
  "verifyPayment 5000 5001 (wallet_answering (Inr still_processed)) ''p1'' (holding alice_payment) =
     (Inr alice_payment, polled_once)"
  by (simp add: polled_once_def example_defs processor_defs)

lemma later_check_while_processing:
  assumes "k < maxAttempts"
  shows "verifyPayment (5000 + 10000 * int k) (5001 + 10000 * int k)
           (wallet_answering (Inr still_processed)) ''p1'' polled_once =
         (Inr alice_payment, polled_once)"
proof -
  have "10000 * int k \<le> 3600000" using assms by (simp add: maxAttempts_def)
  then show ?thesis
    by (simp add: polled_once_def example_defs processor_defs)
qed

lemma polling_while_processing_times_out:
  "TimeoutLogged \<in>
     set (fst (snd (checkConfirmation oracle_processing ''p1'' 0 (holding alice_payment))))"
proof -
  have w0: "verifyPayment (fst (oracle_processing 0)) (fst (snd (oracle_processing 0)))
              (snd (snd (oracle_processing 0))) ''p1'' (holding alice_payment) =
            (Inr alice_payment, polled_once)"
    using first_check_while_processing by (simp add: oracle_processing_def)
  have np: "status alice_payment \<noteq> CONFIRMED" "status alice_payment \<noteq> FAILED"
    by (simp_all add: alice_payment_def)
  have lt: "(0::nat) + 1 < maxAttempts" by (simp add: maxAttempts_def)
  have "TimeoutLogged \<in>
          set (fst (snd (checkConfirmation oracle_processing ''p1'' (0 + 1) polled_once)))"
  proof (rule polling_times_out)
    fix k assume "0 + 1 \<le> k" and k: "k < maxAttempts"
    show "\<exists>p. verifyPayment (fst (oracle_processing k)) (fst (snd (oracle_processing k)))
                (snd (snd (oracle_processing k))) ''p1'' polled_once = (Inr p, polled_once) \<and>
              status p \<noteq> CONFIRMED \<and> status p \<noteq> FAILED"
      using later_check_while_processing[OF k] np by (simp add: oracle_processing_def)
  qed (rule lt)
  then show ?thesis
    unfolding checkConfirmation_again[where world = oracle_processing and attempts = 0, OF w0 np lt]
    by simp
qed

text \<open>
  Counterexample for claim C2, as stated. With a status oracle that is unreachable at
  every check, polling for a pending payment waits 5 seconds, makes one check, logs its
  error and ends: one check is made, not the 30 of the retry budget, and no 10-second
  timer is set after the error.
\<close>

theorem polling_error_counterexample:
  "fst (snd (monitorPaymentConfirmation oracle_unreachable ''p1'' (holding alice_payment))) =
     [Delay 5000,
      Verified (Inl (PaymentError ''Failed to verify payment'' (Cause (ExternalError ''fetch failed'')))),
      ErrorLogged (PaymentError ''Failed to verify payment'' (Cause (ExternalError ''fetch failed'')))] \<and>
   checks (fst (snd (monitorPaymentConfirmation oracle_unreachable ''p1'' (holding alice_payment)))) = 1 \<and>
   maxAttempts = 30"
proof -
  have w: "oracle_unreachable 0 = (5000, 5001, wallet_answering (Inl (ExternalError ''fetch failed'')))"
    by (simp add: oracle_unreachable_def)
  have v: "fst (verifyPayment 5000 5001 (wallet_answering (Inl (ExternalError ''fetch failed'')))
                  ''p1'' (holding alice_payment)) =
           Inl (PaymentError ''Failed to verify payment'' (Cause (ExternalError ''fetch failed'')))"
    by (simp add: example_defs processor_defs)
  show ?thesis
    by (simp add: monitorPaymentConfirmation_def checks_def maxAttempts_def
        checkConfirmation_on_error[where world = oracle_unreachable and attempts = 0, OF w v])
qed

text \<open>
  Claim C2, amended. During confirmation polling for a payment id, no error escapes
  \<open>checkConfirmation\<close>, so none reaches a caller. An error thrown by a check is caught and
  passed to \<open>logger.error\<close>, and that check is the last: the attempt counter is not
  advanced, no further timer is set, and the state is the one \<open>verifyPayment\<close> left. A
  logged error always ends the trace, after checks that all succeeded and found the
  payment neither CONFIRMED nor FAILED. The number of checks never exceeds the remaining
  budget, and a trace that reaches the timeout holds no failed check: the 30-attempt
  budget is used up only by checks that succeed and find the payment neither CONFIRMED
  nor FAILED.
\<close>

theorem polling_stops_at_first_error:
  "fst (checkConfirmation world paymentId attempts st) = None \<and>
   (world attempts = (t_lookup, t_update, ws) \<and>
    fst (verifyPayment t_lookup t_update ws paymentId st) = Inl e \<longrightarrow>
      fst (snd (checkConfirmation world paymentId attempts st)) =
        [Verified (Inl e), ErrorLogged e] \<and>
      checks (fst (snd (checkConfirmation world paymentId attempts st))) = 1 \<and>
      snd (snd (checkConfirmation world paymentId attempts st)) =
        snd (verifyPayment t_lookup t_update ws paymentId st)) \<and>
   (\<forall>e'. ErrorLogged e' \<in> set (fst (snd (checkConfirmation world paymentId attempts st))) \<longrightarrow>
      (\<exists>pre. fst (snd (checkConfirmation world paymentId attempts st)) =
               pre @ [Verified (Inl e'), ErrorLogged e'] \<and> all_checks_pending pre)) \<and>
   (attempts < maxAttempts \<longrightarrow>
      checks (fst (snd (checkConfirmation world paymentId attempts st))) \<le> maxAttempts - attempts) \<and>
   (TimeoutLogged \<in> set (fst (snd (checkConfirmation world paymentId attempts st))) \<longrightarrow>
      all_checks_pending (fst (snd (checkConfirmation world paymentId attempts st))) \<and>
      (attempts < maxAttempts \<longrightarrow>
         checks (fst (snd (checkConfirmation world paymentId attempts st))) =
           maxAttempts - attempts))"
proof (intro conjI)
  show "fst (checkConfirmation world paymentId attempts st) = None"
    by (rule checkConfirmation_never_throws)
  show "world attempts = (t_lookup, t_update, ws) \<and>
    fst (verifyPayment t_lookup t_update ws paymentId st) = Inl e \<longrightarrow>
      fst (snd (checkConfirmation world paymentId attempts st)) =
        [Verified (Inl e), ErrorLogged e] \<and>
      checks (fst (snd (checkConfirmation world paymentId attempts st))) = 1 \<and>
      snd (snd (checkConfirmation world paymentId attempts st)) =
        snd (verifyPayment t_lookup t_update ws paymentId st)"
    using checkConfirmation_on_error[where world = world and attempts = attempts
        and t_lookup = t_lookup and t_update = t_update and ws = ws and e = e
        and paymentId = paymentId and st = st]
    by (simp add: checks_def)
  show "\<forall>e'. ErrorLogged e' \<in> set (fst (snd (checkConfirmation world paymentId attempts st))) \<longrightarrow>
      (\<exists>pre. fst (snd (checkConfirmation world paymentId attempts st)) =
               pre @ [Verified (Inl e'), ErrorLogged e'] \<and> all_checks_pending pre)"
    by (rule checkConfirmation_error_trace)
  show "attempts < maxAttempts \<longrightarrow>
      checks (fst (snd (checkConfirmation world paymentId attempts st))) \<le> maxAttempts - attempts"
    by (rule checkConfirmation_checks_bounded)
  show "TimeoutLogged \<in> set (fst (snd (checkConfirmation world paymentId attempts st))) \<longrightarrow>
      all_checks_pending (fst (snd (checkConfirmation world paymentId attempts st))) \<and>
      (attempts < maxAttempts \<longrightarrow>
         checks (fst (snd (checkConfirmation world paymentId attempts st))) =
           maxAttempts - attempts)"
    by (rule checkConfirmation_timeout_trace)
qed

text \<open>
  Witness for claim C2, amended: the check made at attempt 3 against an unreachable
  oracle is the only one, and polling from attempt 0 against an oracle that keeps
  answering "processed" makes 30 successful checks and times out.
\<close>

theorem polling_stops_at_first_error_witness:
  "oracle_unreachable 3 = (35000, 35001, wallet_answering (Inl (ExternalError ''fetch failed''))) \<and>
   fst (verifyPayment 35000 35001 (wallet_answering (Inl (ExternalError ''fetch failed'')))
          ''p1'' (holding alice_payment)) =
     Inl (PaymentError ''Failed to verify payment'' (Cause (ExternalError ''fetch failed''))) \<and>
   fst (checkConfirmation oracle_unreachable ''p1'' 3 (holding alice_payment)) = None \<and>
   fst (snd (checkConfirmation oracle_unreachable ''p1'' 3 (holding alice_payment))) =
     [Verified (Inl (PaymentError ''Failed to verify payment'' (Cause (ExternalError ''fetch failed'')))),
      ErrorLogged (PaymentError ''Failed to verify payment'' (Cause (ExternalError ''fetch failed'')))] \<and>
   checks (fst (snd (checkConfirmation oracle_unreachable ''p1'' 3 (holding alice_payment)))) = 1 \<and>
   TimeoutLogged \<in>
     set (fst (snd (checkConfirmation oracle_processing ''p1'' 0 (holding alice_payment)))) \<and>
   all_checks_pending
     (fst (snd (checkConfirmation oracle_processing ''p1'' 0 (holding alice_payment)))) \<and>
   checks (fst (snd (checkConfirmation oracle_processing ''p1'' 0 (holding alice_payment)))) = 30"
proof -
  have w: "oracle_unreachable 3 = (35000, 35001, wallet_answering (Inl (ExternalError ''fetch failed'')))"
    by (simp add: oracle_unreachable_def)
  have v: "fst (verifyPayment 35000 35001 (wallet_answering (Inl (ExternalError ''fetch failed'')))
                  ''p1'' (holding alice_payment)) =
           Inl (PaymentError ''Failed to verify payment'' (Cause (ExternalError ''fetch failed'')))"
    by (simp add: example_defs processor_defs)
  have t: "TimeoutLogged \<in>
     set (fst (snd (checkConfirmation oracle_processing ''p1'' 0 (holding alice_payment))))"
    by (rule polling_while_processing_times_out)
  have z: "(0::nat) < maxAttempts" "maxAttempts - 0 = 30" by (simp_all add: maxAttempts_def)
  have a: "fst (checkConfirmation oracle_unreachable ''p1'' 3 (holding alice_payment)) = None \<and>
      fst (snd (checkConfirmation oracle_unreachable ''p1'' 3 (holding alice_payment))) =
        [Verified (Inl (PaymentError ''Failed to verify payment'' (Cause (ExternalError ''fetch failed'')))),
         ErrorLogged (PaymentError ''Failed to verify payment'' (Cause (ExternalError ''fetch failed'')))] \<and>
      checks (fst (snd (checkConfirmation oracle_unreachable ''p1'' 3 (holding alice_payment)))) = 1"
    using w v polling_stops_at_first_error[where world = oracle_unreachable and attempts = 3
        and t_lookup = 35000 and t_update = 35001
        and ws = "wallet_answering (Inl (ExternalError ''fetch failed''))"
        and paymentId = "''p1''" and st = "holding alice_payment"
        and e = "PaymentError ''Failed to verify payment'' (Cause (ExternalError ''fetch failed''))"]
    by blast
  have b: "all_checks_pending
      (fst (snd (checkConfirmation oracle_processing ''p1'' 0 (holding alice_payment)))) \<and>
     checks (fst (snd (checkConfirmation oracle_processing ''p1'' 0 (holding alice_payment)))) = 30"
    using t z polling_stops_at_first_error[where world = oracle_processing and attempts = 0
        and paymentId = "''p1''" and st = "holding alice_payment"]
    by metis
  show ?thesis
    using w v t a b by blast
qed

end
